theory Spec2Isabelle
  imports Main "HOL-Library.Sublist"
begin

section \<open>Strings\<close>

text \<open>
  Python strings are modelled as \<open>string\<close>: lists of the 256 characters of HOL, read
  as the code points 0 to 255 (Latin-1). On these \<open>str.lower()\<close> works character by
  character: it adds 32 to the code points of \<open>A\<close> to \<open>Z\<close> (65 to 90) and of the
  accented capitals (192 to 222, the multiplication sign 215 apart), and leaves every
  other character as it is.
\<close>

definition lower_char :: "char \<Rightarrow> char" where
  "lower_char c =
     (let n = of_char c :: nat
      in if (65 \<le> n \<and> n \<le> 90) \<or> (192 \<le> n \<and> n \<le> 222 \<and> n \<noteq> 215)
         then char_of (n + 32) else c)"

definition lower :: "string \<Rightarrow> string" where
  "lower s = map lower_char s"

text \<open>\<open>str_in a b\<close> is Python's \<open>a in b\<close> on strings: \<open>a\<close> occurs in \<open>b\<close> as a
  contiguous run of characters; the empty string occurs in every string.\<close>

fun str_in :: "string \<Rightarrow> string \<Rightarrow> bool" where
  "str_in a [] = (a = [])"
| "str_in a (c # cs) = (prefix a (c # cs) \<or> str_in a cs)"

section \<open>Process handles, exceptions, events\<close>

text \<open>
  A \<open>psutil.Process\<close> handle as \<open>process_iter\<close> yields it: the pid and the prefetched
  \<open>info\<close> dictionary, whose \<open>name\<close> and \<open>exe\<close> entries are \<open>None\<close> when the operating
  system refused to tell.
\<close>

record proc =
  pid :: int
  name :: "string option"
  exe :: "string option"

text \<open>
  The exceptions the code tells apart. \<open>OtherException\<close> stands for every subclass
  of Python's \<open>Exception\<close> that the code does not name (\<open>OSError\<close>,
  \<open>TimeoutExpired\<close>, \<open>FileNotFoundError\<close>, ...). \<open>KeyboardInterrupt\<close> and
  \<open>SystemExit\<close> derive from \<open>BaseException\<close> only: \<open>except Exception\<close> does not
  catch them.
\<close>

datatype exn =
  NoSuchProcess | AccessDenied | NameError | OtherException | KeyboardInterrupt | SystemExit

text \<open>\<open>is_Exception e\<close> is \<open>isinstance(e, Exception)\<close>.\<close>

fun is_Exception :: "exn \<Rightarrow> bool" where
  "is_Exception KeyboardInterrupt = False"
| "is_Exception SystemExit = False"
| "is_Exception e = True"

datatype level = Info | Warning | Error

text \<open>
  What an execution does to the outside world, in order. A log event carries the level
  and the message as the source writes it (an f-string is kept as its template).
  \<open>EvIsRunning\<close> records what \<open>proc.is_running()\<close> answered; \<open>EvTerminate\<close> and
  \<open>EvKill\<close> record that \<open>proc.terminate()\<close> and \<open>proc.kill()\<close> were invoked.
\<close>

datatype event =
    EvLog level string
  | EvRun "string list" "exn + int"
  | EvSleep nat
  | EvProcessIter
  | EvIsRunning proc "exn + bool"
  | EvTerminate proc
  | EvKill proc
  | EvOpenUri string "exn + bool"
  | EvGetPath
  | EvExists string
  | EvPopen "string list"

section \<open>The operating system\<close>

text \<open>
  The primitives the module calls, over a world \<open>'w\<close> that is left open. A primitive
  takes the world and gives its outcome (an exception or a value), the time the call
  took in milliseconds, and the world afterwards. Every primitive may raise any
  exception. For \<open>time_sleep d\<close> the time is what passed beyond the \<open>d\<close>
  milliseconds asked for when the sleep returns, and all that passed when it raises.

  \<open>executable_dir\<close> is \<open>os.path.dirname(os.path.abspath(sys.executable))\<close>, and \<open>None\<close>
  when computing it raises. \<open>open_uri\<close> and \<open>get_antigravity_executable_path\<close> are
  helpers of the repository's \<open>utils\<close> module, which the module imports; they are
  parameters here like the primitives of the system. The path that the second one
  finds is \<open>None\<close> or a \<open>pathlib.Path\<close>, kept as its string; \<open>path_exists\<close> is the
  path's \<open>exists()\<close>.
\<close>

record 'w os =
  platform_system :: string
  os_getpid :: int
  executable_dir :: "string option"
  psutil_process_iter :: "'w \<Rightarrow> (exn + proc list) \<times> nat \<times> 'w"
  subprocess_run :: "string list \<Rightarrow> 'w \<Rightarrow> (exn + int) \<times> nat \<times> 'w"
  subprocess_Popen :: "string list \<Rightarrow> 'w \<Rightarrow> (exn + unit) \<times> nat \<times> 'w"
  proc_is_running :: "proc \<Rightarrow> 'w \<Rightarrow> (exn + bool) \<times> nat \<times> 'w"
  proc_terminate :: "proc \<Rightarrow> 'w \<Rightarrow> (exn + unit) \<times> nat \<times> 'w"
  proc_kill :: "proc \<Rightarrow> 'w \<Rightarrow> (exn + unit) \<times> nat \<times> 'w"
  time_sleep :: "nat \<Rightarrow> 'w \<Rightarrow> (exn + unit) \<times> nat \<times> 'w"
  utils_open_uri :: "string \<Rightarrow> 'w \<Rightarrow> (exn + bool) \<times> nat \<times> 'w"
  utils_get_antigravity_executable_path :: "'w \<Rightarrow> (exn + string option) \<times> nat \<times> 'w"
  path_exists :: "string \<Rightarrow> 'w \<Rightarrow> (exn + bool) \<times> nat \<times> 'w"

text \<open>
  The state of an execution: the world, the clock that \<open>time.time()\<close> reads (in
  milliseconds) and the events so far. Time passes inside the calls of primitives and
  nowhere else, so the clock never runs backwards and a sleep of \<open>d\<close> that returns
  lasted at least \<open>d\<close>.
\<close>

record 'w state =
  world :: 'w
  now :: int
  trace :: "event list"

text \<open>
  Modelled from the spec: \<open>info\<close>, \<open>warning\<close> and \<open>error\<close> are helpers of the
  repository's \<open>utils\<close> module, which is not among the sources. The spec calls them
  generic logging and printing helpers that show messages to the user: they are
  modelled as recording the message and returning.
\<close>

definition log :: "level \<Rightarrow> string \<Rightarrow> 'w state \<Rightarrow> 'w state" where
  "log l m s = s\<lparr>trace := trace s @ [EvLog l m]\<rparr>"

definition info :: "string \<Rightarrow> 'w state \<Rightarrow> 'w state" where
  "info m s = log Info m s"

definition warning :: "string \<Rightarrow> 'w state \<Rightarrow> 'w state" where
  "warning m s = log Warning m s"

definition error :: "string \<Rightarrow> 'w state \<Rightarrow> 'w state" where
  "error m s = log Error m s"

text \<open>\<open>call f ev s\<close> runs the primitive \<open>f\<close> in state \<open>s\<close>: the clock advances by
  the time the call took and the event \<open>ev\<close> of the outcome is recorded.\<close>

definition call ::
  "('w \<Rightarrow> (exn + 'a) \<times> nat \<times> 'w) \<Rightarrow> ((exn + 'a) \<Rightarrow> event) \<Rightarrow> 'w state \<Rightarrow> (exn + 'a) \<times> 'w state"
where
  "call f ev s =
     (case f (world s) of
        (r, d, w) \<Rightarrow> (r, \<lparr>world = w, now = now s + int d, trace = trace s @ [ev r]\<rparr>))"

definition process_iter :: "'w os \<Rightarrow> 'w state \<Rightarrow> (exn + proc list) \<times> 'w state" where
  "process_iter os s = call (psutil_process_iter os) (\<lambda>r. EvProcessIter) s"

definition run :: "'w os \<Rightarrow> string list \<Rightarrow> 'w state \<Rightarrow> (exn + int) \<times> 'w state" where
  "run os cmd s = call (subprocess_run os cmd) (\<lambda>r. EvRun cmd r) s"

definition Popen :: "'w os \<Rightarrow> string list \<Rightarrow> 'w state \<Rightarrow> (exn + unit) \<times> 'w state" where
  "Popen os cmd s = call (subprocess_Popen os cmd) (\<lambda>r. EvPopen cmd) s"

definition is_running :: "'w os \<Rightarrow> proc \<Rightarrow> 'w state \<Rightarrow> (exn + bool) \<times> 'w state" where
  "is_running os p s = call (proc_is_running os p) (\<lambda>r. EvIsRunning p r) s"

definition terminate :: "'w os \<Rightarrow> proc \<Rightarrow> 'w state \<Rightarrow> (exn + unit) \<times> 'w state" where
  "terminate os p s = call (proc_terminate os p) (\<lambda>r. EvTerminate p) s"

definition kill :: "'w os \<Rightarrow> proc \<Rightarrow> 'w state \<Rightarrow> (exn + unit) \<times> 'w state" where
  "kill os p s = call (proc_kill os p) (\<lambda>r. EvKill p) s"

definition open_uri :: "'w os \<Rightarrow> string \<Rightarrow> 'w state \<Rightarrow> (exn + bool) \<times> 'w state" where
  "open_uri os uri s = call (utils_open_uri os uri) (\<lambda>r. EvOpenUri uri r) s"

definition get_antigravity_executable_path ::
  "'w os \<Rightarrow> 'w state \<Rightarrow> (exn + string option) \<times> 'w state"
where
  "get_antigravity_executable_path os s =
     call (utils_get_antigravity_executable_path os) (\<lambda>r. EvGetPath) s"

definition exists :: "'w os \<Rightarrow> string \<Rightarrow> 'w state \<Rightarrow> (exn + bool) \<times> 'w state" where
  "exists os path s = call (path_exists os path) (\<lambda>r. EvExists path) s"

definition sleep :: "'w os \<Rightarrow> nat \<Rightarrow> 'w state \<Rightarrow> (exn + unit) \<times> 'w state" where
  "sleep os d s =
     (case time_sleep os d (world s) of
        (r, x, w) \<Rightarrow>
          (r, \<lparr>world = w,
               now = now s + (case r of Inl e \<Rightarrow> 0 | Inr u \<Rightarrow> int d) + int x,
               trace = trace s @ [EvSleep d]\<rparr>))"

text \<open>
  \<open>try: ... except Exception as e: ...\<close> around a computation whose outcome is \<open>r\<close>:
  an exception that is an \<open>Exception\<close> goes to the handler, any other exception and
  any value pass.
\<close>

definition except_Exception ::
  "(exn \<Rightarrow> 'w state \<Rightarrow> (exn + 'a) \<times> 'w state) \<Rightarrow> (exn + 'a) \<times> 'w state
     \<Rightarrow> (exn + 'a) \<times> 'w state"
where
  "except_Exception handler r =
     (case r of
        (Inl e, s) \<Rightarrow> if is_Exception e then handler e s else (Inl e, s)
      | (Inr v, s) \<Rightarrow> (Inr v, s))"

section \<open>Detection: \<open>is_process_running\<close>\<close>

definition process_name_lower :: "proc \<Rightarrow> string" where
  "process_name_lower p = (case name p of None \<Rightarrow> [] | Some n \<Rightarrow> lower n)"

definition exe_path :: "proc \<Rightarrow> string" where
  "exe_path p = (case exe p of None \<Rightarrow> [] | Some e \<Rightarrow> lower e)"

text \<open>The classification of lines 29--39: one rule per platform.\<close>

definition is_antigravity :: "string \<Rightarrow> proc \<Rightarrow> bool" where
  "is_antigravity system p =
     (if system = ''Darwin'' then str_in ''antigravity.app'' (exe_path p)
      else if system = ''Windows'' then
        (process_name_lower p \<in> set [''antigravity.exe'', ''antigravity'']
         \<or> str_in ''antigravity'' (exe_path p))
      else (process_name_lower p = ''antigravity'' \<or> str_in ''antigravity'' (exe_path p)))"

text \<open>The loop of lines 21--46: the first process classified as the target ends it.\<close>

fun any_antigravity :: "string \<Rightarrow> proc list \<Rightarrow> bool" where
  "any_antigravity system [] = False"
| "any_antigravity system (p # ps) =
     (if is_antigravity system p then True else any_antigravity system ps)"

definition is_process_running :: "'w os \<Rightarrow> 'w state \<Rightarrow> (exn + bool) \<times> 'w state" where
  "is_process_running os s =
     (case process_iter os s of
        (Inl e, s1) \<Rightarrow> (Inl e, s1)
      | (Inr ps, s1) \<Rightarrow> (Inr (any_antigravity (platform_system os) ps), s1))"

section \<open>Shutdown: \<open>close_antigravity\<close>\<close>

subsection \<open>The platform's own quit request (lines 68--101)\<close>

text \<open>
  The inner \<open>try\<close> of both branches: run the tool; when it reports success, say so and
  wait two seconds; an \<open>Exception\<close> of the tool or of the wait becomes a warning and
  nothing more.
\<close>

definition quit_request ::
  "'w os \<Rightarrow> string list \<Rightarrow> string \<Rightarrow> 'w state \<Rightarrow> (exn + unit) \<times> 'w state"
where
  "quit_request os cmd failed s =
     except_Exception (\<lambda>e s'. (Inr (), warning failed s'))
       (case run os cmd s of
          (Inl e, s1) \<Rightarrow> (Inl e, s1)
        | (Inr returncode, s1) \<Rightarrow>
            if returncode = 0
            then sleep os 2000 (info ''Quit request sent, waiting for app to respond...'' s1)
            else (Inr (), s1))"

definition graceful_exit :: "'w os \<Rightarrow> 'w state \<Rightarrow> (exn + unit) \<times> 'w state" where
  \<open>graceful_exit os s =
     (if platform_system os = ''Darwin'' then
        quit_request os [''osascript'', ''-e'', ''tell application "Antigravity" to quit'']
          ''AppleScript quit failed: {e}, will use other methods''
          (info ''Attempting graceful exit via AppleScript...'' s)
      else if platform_system os = ''Windows'' then
        quit_request os [''taskkill'', ''/IM'', ''Antigravity.exe'', ''/T'']
          ''taskkill quit failed: {e}, will use other methods''
          (info ''Attempting graceful exit via taskkill...'' s)
      else (Inr (), s))\<close>

subsection \<open>Collecting the targets (lines 106--152)\<close>

definition in_current_dir :: "'w os \<Rightarrow> proc \<Rightarrow> bool" where
  "in_current_dir os p =
     (case executable_dir os of
        None \<Rightarrow> False
      | Some d \<Rightarrow> exe_path p \<noteq> [] \<and> str_in (lower d) (exe_path p))"

text \<open>The classification of lines 131--145; it differs from \<open>is_antigravity\<close> on
  Windows, where a path match does not count for a process with \<open>manager\<close> in its
  name.\<close>

definition is_antigravity_close :: "string \<Rightarrow> proc \<Rightarrow> bool" where
  "is_antigravity_close system p =
     (if system = ''Darwin'' then str_in ''antigravity.app'' (exe_path p)
      else if system = ''Windows'' then
        (let is_target_name = process_name_lower p \<in> set [''antigravity.exe'', ''antigravity''];
             is_in_path = str_in ''antigravity'' (exe_path p);
             is_manager = str_in ''manager'' (process_name_lower p)
         in is_target_name \<or> (is_in_path \<and> \<not> is_manager))
      else (process_name_lower p = ''antigravity'' \<or> str_in ''antigravity'' (exe_path p)))"

fun collect_targets ::
  "'w os \<Rightarrow> proc list \<Rightarrow> proc list \<Rightarrow> 'w state \<Rightarrow> proc list \<times> 'w state"
where
  "collect_targets os [] target_processes s = (target_processes, s)"
| "collect_targets os (p # ps) target_processes s =
     (if pid p = os_getpid os then collect_targets os ps target_processes s
      else if in_current_dir os p then collect_targets os ps target_processes s
      else if is_antigravity_close (platform_system os) p then
        collect_targets os ps (target_processes @ [p])
          (info ''Found target process: {proc.info['name']} ({proc.pid}) - {exe_path}'' s)
      else collect_targets os ps target_processes s)"

subsection \<open>Cooperative termination (lines 162--169)\<close>

text \<open>Every \<open>Exception\<close> of \<open>is_running\<close> and of \<open>terminate\<close> is swallowed here
  (\<open>except Exception: continue\<close>); any other exception leaves the loop.\<close>

fun send_terminate :: "'w os \<Rightarrow> proc list \<Rightarrow> 'w state \<Rightarrow> (exn + unit) \<times> 'w state" where
  "send_terminate os [] s = (Inr (), s)"
| "send_terminate os (p # ps) s =
     (case is_running os p s of
        (Inr b, s1) \<Rightarrow>
          if b then
            (case terminate os p s1 of
               (Inr u, s2) \<Rightarrow> send_terminate os ps s2
             | (Inl e, s2) \<Rightarrow>
                 if is_Exception e then send_terminate os ps s2 else (Inl e, s2))
          else send_terminate os ps s1
      | (Inl e, s1) \<Rightarrow>
          if is_Exception e then send_terminate os ps s1 else (Inl e, s1))"

subsection \<open>Which handles still run (lines 175--181 and 205--211)\<close>

text \<open>
  The two loops have the same body: a handle that answers true is appended,
  \<open>NoSuchProcess\<close> and \<open>AccessDenied\<close> skip the handle, any other exception leaves
  the loop.
\<close>

fun collect_running ::
  "'w os \<Rightarrow> proc list \<Rightarrow> proc list \<Rightarrow> 'w state \<Rightarrow> (exn + proc list) \<times> 'w state"
where
  "collect_running os [] acc s = (Inr acc, s)"
| "collect_running os (p # ps) acc s =
     (case is_running os p s of
        (Inr b, s1) \<Rightarrow> collect_running os ps (if b then acc @ [p] else acc) s1
      | (Inl e, s1) \<Rightarrow>
          if e = NoSuchProcess \<or> e = AccessDenied then collect_running os ps acc s1
          else (Inl e, s1))"

lemma now_call: "call f ev s = (r, s') \<Longrightarrow> now s \<le> now s'"
  by (auto simp: call_def split: prod.splits)

lemma now_is_running: "is_running os p s = (r, s') \<Longrightarrow> now s \<le> now s'"
  unfolding is_running_def by (rule now_call)

lemma now_sleep: "sleep os d s = (Inr u, s') \<Longrightarrow> now s + int d \<le> now s'"
  by (auto simp: sleep_def split: prod.splits)

lemma now_collect_running: "collect_running os ps acc s = (r, s') \<Longrightarrow> now s \<le> now s'"
proof (induction ps arbitrary: acc s)
  case Nil
  then show ?case by simp
next
  case (Cons p ps)
  obtain r1 s1 where c: "is_running os p s = (r1, s1)"
    by (cases "is_running os p s")
  have le: "now s \<le> now s1"
    using c by (rule now_is_running)
  show ?case
  proof (cases r1)
    case (Inl e)
    then show ?thesis
      using Cons.prems c le Cons.IH [of acc s1] by (auto split: if_splits)
  next
    case (Inr b)
    then show ?thesis
      using Cons.prems c le Cons.IH [of "if b then acc @ [p] else acc" s1] by auto
  qed
qed

lemma now_round:
  assumes "(r, s1) = collect_running os ps acc s" and "(Inr u, s2) = sleep os 500 s1"
  shows "now s < now s2"
proof -
  have "now s \<le> now s1"
    using assms(1) now_collect_running [of os ps acc s r s1] by simp
  moreover have "now s1 + 500 \<le> now s2"
    using assms(2) now_sleep [of os 500 s1 u s2] by simp
  ultimately show ?thesis by simp
qed

subsection \<open>Waiting for the processes to exit (lines 173--187)\<close>

text \<open>
  How the \<open>while\<close> loop is left: by the \<open>return True\<close> inside it, or by its condition,
  with the variable \<open>still_running\<close> as the last round bound it. The variable is
  local to the loop's body: it is unbound (\<open>None\<close>) when the body never ran.
\<close>

datatype loop_exit = ReturnTrue | LoopEnd "proc list option"

text \<open>\<open>timeout\<close> is in seconds, the clock in milliseconds.\<close>

function wait_for_exit ::
  "'w os \<Rightarrow> int \<Rightarrow> int \<Rightarrow> proc list \<Rightarrow> proc list option \<Rightarrow> 'w state
     \<Rightarrow> (exn + loop_exit) \<times> 'w state"
where
  "wait_for_exit os start_time timeout target_processes still_running s =
     (if now s - start_time < timeout * 1000 then
        (case collect_running os target_processes [] s of
           (Inl e, s1) \<Rightarrow> (Inl e, s1)
         | (Inr still, s1) \<Rightarrow>
             if still = [] then
               (Inr ReturnTrue, info ''All Antigravity processes have been closed'' s1)
             else
               (case sleep os 500 s1 of
                  (Inl e, s2) \<Rightarrow> (Inl e, s2)
                | (Inr u, s2) \<Rightarrow>
                    wait_for_exit os start_time timeout target_processes (Some still) s2))
      else (Inr (LoopEnd still_running), s))"
  by pat_completeness auto
termination
proof (relation "measure (\<lambda>(os, start_time, timeout, tp, sr, s).
                   nat (start_time + timeout * 1000 - now s))", goal_cases)
  case 1
  show ?case by simp
next
  case 2
  then show ?case
    using now_round by force
qed

subsection \<open>Forced kill (lines 190--224)\<close>

fun kill_all :: "'w os \<Rightarrow> proc list \<Rightarrow> 'w state \<Rightarrow> (exn + unit) \<times> 'w state" where
  "kill_all os [] s = (Inr (), s)"
| "kill_all os (p # ps) s =
     (case is_running os p s of
        (Inr b, s1) \<Rightarrow>
          if b then
            (case kill os p s1 of
               (Inr u, s2) \<Rightarrow> kill_all os ps s2
             | (Inl e, s2) \<Rightarrow>
                 if e = NoSuchProcess \<or> e = AccessDenied then kill_all os ps s2
                 else (Inl e, s2))
          else kill_all os ps s1
      | (Inl e, s1) \<Rightarrow>
          if e = NoSuchProcess \<or> e = AccessDenied then kill_all os ps s1
          else (Inl e, s1))"

text \<open>Reading \<open>still_running\<close> while it is unbound raises \<open>NameError\<close>.\<close>

definition force_kill_phase ::
  "'w os \<Rightarrow> bool \<Rightarrow> proc list option \<Rightarrow> 'w state \<Rightarrow> (exn + bool) \<times> 'w state"
where
  "force_kill_phase os force_kill still_running s =
     (case still_running of
        None \<Rightarrow> (Inl NameError, s)
      | Some still \<Rightarrow>
          if still \<noteq> [] then
            (let s1 = warning ''{len(still_running)} process(es) still running: {still_running_names}'' s
             in if force_kill then
                  (case kill_all os still (info ''Sending force kill signal (SIGKILL)...'' s1) of
                     (Inl e, s2) \<Rightarrow> (Inl e, s2)
                   | (Inr u, s2) \<Rightarrow>
                       (case sleep os 1000 s2 of
                          (Inl e, s3) \<Rightarrow> (Inl e, s3)
                        | (Inr u', s3) \<Rightarrow>
                            (case collect_running os still [] s3 of
                               (Inl e, s4) \<Rightarrow> (Inl e, s4)
                             | (Inr final_check, s4) \<Rightarrow>
                                 if final_check = [] then
                                   (Inr True,
                                    info ''All Antigravity processes have been terminated'' s4)
                                 else
                                   (Inr False,
                                    error ''Unable to terminate processes: {final_list}'' s4))))
                else
                  (Inr False,
                   error ''Some processes could not be closed, please close them manually and retry'' s1))
          else (Inr True, s))"

subsection \<open>The whole operation (lines 48--228)\<close>

text \<open>The enumeration of line 107 with the loop that filters it.\<close>

definition find_targets :: "'w os \<Rightarrow> 'w state \<Rightarrow> (exn + proc list) \<times> 'w state" where
  "find_targets os s =
     (case process_iter os s of
        (Inl e, s1) \<Rightarrow> (Inl e, s1)
      | (Inr ps, s1) \<Rightarrow> (case collect_targets os ps [] s1 of (tp, s2) \<Rightarrow> (Inr tp, s2)))"

text \<open>Lines 67--152: the platform's quit request, then the scan for targets.\<close>

definition scan :: "'w os \<Rightarrow> 'w state \<Rightarrow> (exn + proc list) \<times> 'w state" where
  "scan os s =
     (case graceful_exit os s of
        (Inl e, s1) \<Rightarrow> (Inl e, s1)
      | (Inr u, s1) \<Rightarrow> find_targets os s1)"

text \<open>Lines 158--172: the announcements and the cooperative signal.\<close>

definition request_termination ::
  "'w os \<Rightarrow> proc list \<Rightarrow> 'w state \<Rightarrow> (exn + unit) \<times> 'w state"
where
  "request_termination os target_processes s =
     (case send_terminate os target_processes
             (info ''Sending termination signal (SIGTERM)...''
                (info ''Detected {len(target_processes)} process(es) still running'' s)) of
        (Inl e, s1) \<Rightarrow> (Inl e, s1)
      | (Inr u, s1) \<Rightarrow>
          (Inr (), info ''Waiting for processes to exit (up to {timeout} seconds)...'' s1))"

text \<open>The body of the outer \<open>try\<close> up to the end of the \<open>while\<close> loop (lines
  67--187). \<open>ReturnTrue\<close> is either \<open>return True\<close> of these lines: no target was found
  (line 156), or a round of the loop found none running (line 185).\<close>

definition polling :: "'w os \<Rightarrow> int \<Rightarrow> 'w state \<Rightarrow> (exn + loop_exit) \<times> 'w state" where
  "polling os timeout s =
     (case scan os s of
        (Inl e, s1) \<Rightarrow> (Inl e, s1)
      | (Inr target_processes, s1) \<Rightarrow>
          if target_processes = [] then
            (Inr ReturnTrue, info ''All Antigravity processes have been closed'' s1)
          else
            (case request_termination os target_processes s1 of
               (Inl e, s2) \<Rightarrow> (Inl e, s2)
             | (Inr u, s2) \<Rightarrow>
                 (let start_time = now s2
                  in wait_for_exit os start_time timeout target_processes None s2)))"

text \<open>The whole body of the outer \<open>try\<close> (lines 67--224).\<close>

definition close_body :: "'w os \<Rightarrow> int \<Rightarrow> bool \<Rightarrow> 'w state \<Rightarrow> (exn + bool) \<times> 'w state" where
  "close_body os timeout force_kill s =
     (case polling os timeout s of
        (Inl e, s3) \<Rightarrow> (Inl e, s3)
      | (Inr ReturnTrue, s3) \<Rightarrow> (Inr True, s3)
      | (Inr (LoopEnd still_running), s3) \<Rightarrow>
          force_kill_phase os force_kill still_running s3)"

text \<open>Lines 59--64, before the \<open>try\<close>.\<close>

definition announce :: "'w os \<Rightarrow> 'w state \<Rightarrow> 'w state" where
  "announce os s =
     (let s1 = info ''Attempting to close Antigravity...'' s
      in if platform_system os \<notin> set [''Darwin'', ''Windows'', ''Linux'']
         then warning ''Unknown platform: {system}, will try generic method'' s1
         else s1)"

text \<open>The operation with its handler (lines 226--228): an \<open>Exception\<close> of the body
  is reported as an error and the answer is false; any other exception of the body
  leaves the operation.\<close>

definition close_antigravity ::
  "'w os \<Rightarrow> int \<Rightarrow> bool \<Rightarrow> 'w state \<Rightarrow> (exn + bool) \<times> 'w state"
where
  "close_antigravity os timeout force_kill s =
     except_Exception
       (\<lambda>e s1. (Inr False, error ''Error while closing Antigravity processes: {str(e)}'' s1))
       (close_body os timeout force_kill (announce os s))"

section \<open>Launch: \<open>start_antigravity\<close>\<close>

text \<open>Lines 263--265: the executable is not there.\<close>

definition not_found :: "'w state \<Rightarrow> (exn + bool) \<times> 'w state" where
  "not_found s =
     (Inr False,
      warning ''Hint: Try using URI protocol to launch (use_uri=True)''
        (error ''Antigravity executable not found'' s))"

text \<open>Lines 269--270: the request to start a process was accepted.\<close>

definition sent :: "'w state \<Rightarrow> (exn + bool) \<times> 'w state" where
  "sent s = (Inr True, info ''Antigravity launch command sent'' s)"

text \<open>The launch by the executable path (lines 254--270). On a platform that is none
  of the three nothing is spawned and the answer is true.\<close>

definition launch_by_path :: "'w os \<Rightarrow> 'w state \<Rightarrow> (exn + bool) \<times> 'w state" where
  "launch_by_path os s =
     (let s1 = info ''Launching via executable path...'' s
      in if platform_system os = ''Darwin'' then
           (case Popen os [''open'', ''-a'', ''Antigravity''] s1 of
              (Inl e, s2) \<Rightarrow> (Inl e, s2)
            | (Inr u, s2) \<Rightarrow> sent s2)
         else if platform_system os = ''Windows'' then
           (case get_antigravity_executable_path os s1 of
              (Inl e, s2) \<Rightarrow> (Inl e, s2)
            | (Inr None, s2) \<Rightarrow> not_found s2
            | (Inr (Some path), s2) \<Rightarrow>
                (case exists os path s2 of
                   (Inl e, s3) \<Rightarrow> (Inl e, s3)
                 | (Inr found, s3) \<Rightarrow>
                     if found then
                       (case Popen os [path] s3 of
                          (Inl e, s4) \<Rightarrow> (Inl e, s4)
                        | (Inr u, s4) \<Rightarrow> sent s4)
                     else not_found s3))
         else if platform_system os = ''Linux'' then
           (case Popen os [''antigravity''] s1 of
              (Inl e, s2) \<Rightarrow> (Inl e, s2)
            | (Inr u, s2) \<Rightarrow> sent s2)
         else sent s1)"

text \<open>The body of the \<open>try\<close> (lines 242--270).\<close>

definition launch :: "'w os \<Rightarrow> bool \<Rightarrow> 'w state \<Rightarrow> (exn + bool) \<times> 'w state" where
  "launch os use_uri s =
     (if use_uri then
        (case open_uri os ''antigravity://oauth-success''
                (info ''Launching via URI protocol...'' s) of
           (Inl e, s1) \<Rightarrow> (Inl e, s1)
         | (Inr opened, s1) \<Rightarrow>
             if opened then (Inr True, info ''Antigravity URI launch command sent'' s1)
             else launch_by_path os (warning ''URI launch failed, trying executable path...'' s1))
      else launch_by_path os s)"

text \<open>The operation with its handler (lines 271--277): after an \<open>Exception\<close>, a
  call with \<open>use_uri\<close> calls itself once more with \<open>use_uri=False\<close>, and a call
  without it answers false; any other exception leaves the operation.\<close>

function start_antigravity :: "'w os \<Rightarrow> bool \<Rightarrow> 'w state \<Rightarrow> (exn + bool) \<times> 'w state" where
  "start_antigravity os use_uri s =
     (case launch os use_uri (info ''Starting Antigravity...'' s) of
        (Inr b, s1) \<Rightarrow> (Inr b, s1)
      | (Inl e, s1) \<Rightarrow>
          if is_Exception e then
            (if use_uri then
               start_antigravity os False
                 (warning ''URI launch failed, trying executable path...''
                    (error ''Error starting process: {e}'' s1))
             else (Inr False, error ''Error starting process: {e}'' s1))
          else (Inl e, s1))"
  by pat_completeness auto
termination
  by (relation "measure (\<lambda>(os, use_uri, s). if use_uri then 1 else 0)") auto

section \<open>A scripted operating system\<close>

text \<open>
  A small world on which the operations can be run: a process table, the time as the
  world counts it, and the time at which each signalled process exits. The script
  fixes how the world answers: the platform, the controller's pid and directory, for
  each pid how long it takes to exit after the cooperative signal (a pid with no
  entry ignores the signal), the pids that survive a forced kill, and the outcomes of
  the external tools. Only sleeping takes time.
\<close>

record script =
  sc_system :: string
  sc_pid :: int
  sc_dir :: "string option"
  sc_grace :: "(int \<times> nat) list"
  sc_unkillable :: "int list"
  sc_run :: "exn + int"
  sc_open_uri :: "exn + bool"
  sc_path :: "exn + string option"
  sc_exists :: "exn + bool"
  sc_popen :: "exn + unit"

record sim =
  clock :: nat
  table :: "proc list"
  exit_at :: "(int \<times> nat) list"

definition sim_alive :: "sim \<Rightarrow> proc \<Rightarrow> bool" where
  "sim_alive w p = (case map_of (exit_at w) (pid p) of None \<Rightarrow> True | Some t \<Rightarrow> clock w < t)"

definition sim_terminate :: "script \<Rightarrow> proc \<Rightarrow> sim \<Rightarrow> sim" where
  "sim_terminate sc p w =
     (case map_of (sc_grace sc) (pid p) of
        None \<Rightarrow> w
      | Some g \<Rightarrow>
          if sim_alive w p then w\<lparr>exit_at := (pid p, clock w + g) # exit_at w\<rparr> else w)"

definition sim_kill :: "script \<Rightarrow> proc \<Rightarrow> sim \<Rightarrow> sim" where
  "sim_kill sc p w =
     (if pid p \<in> set (sc_unkillable sc) \<or> \<not> sim_alive w p then w
      else w\<lparr>exit_at := (pid p, clock w) # exit_at w\<rparr>)"

definition sim_os :: "script \<Rightarrow> sim os" where
  "sim_os sc =
     \<lparr>platform_system = sc_system sc,
      os_getpid = sc_pid sc,
      executable_dir = sc_dir sc,
      psutil_process_iter = (\<lambda>w. (Inr (filter (sim_alive w) (table w)), 0, w)),
      subprocess_run = (\<lambda>cmd w. (sc_run sc, 0, w)),
      subprocess_Popen = (\<lambda>cmd w. (sc_popen sc, 0, w)),
      proc_is_running = (\<lambda>p w. (Inr (sim_alive w p), 0, w)),
      proc_terminate = (\<lambda>p w. (Inr (), 0, sim_terminate sc p w)),
      proc_kill = (\<lambda>p w. (Inr (), 0, sim_kill sc p w)),
      time_sleep = (\<lambda>d w. (Inr (), 0, w\<lparr>clock := clock w + d\<rparr>)),
      utils_open_uri = (\<lambda>uri w. (sc_open_uri sc, 0, w)),
      utils_get_antigravity_executable_path = (\<lambda>w. (sc_path sc, 0, w)),
      path_exists = (\<lambda>path w. (sc_exists sc, 0, w))\<rparr>"

definition sim_start :: "proc list \<Rightarrow> sim state" where
  "sim_start ps = \<lparr>world = \<lparr>clock = 0, table = ps, exit_at = []\<rparr>, now = 0, trace = []\<rparr>"

text \<open>The processes and the script of the examples: the application, a helper of
  it, the controller itself, and a process that has nothing to do with either.\<close>

definition p_app :: proc where
  "p_app = \<lparr>pid = 100, name = Some ''antigravity.exe'',
             exe = Some ''C:/Program Files/Antigravity/Antigravity.exe''\<rparr>"

definition p_helper :: proc where
  "p_helper = \<lparr>pid = 101, name = Some ''antigravity'',
                exe = Some ''C:/Program Files/Antigravity/bin/antigravity''\<rparr>"

definition p_self :: proc where
  "p_self = \<lparr>pid = 200, name = Some ''Antigravity Manager.exe'',
              exe = Some ''C:/Tools/Antigravity Manager/Antigravity Manager.exe''\<rparr>"

definition p_editor :: proc where
  "p_editor = \<lparr>pid = 300, name = Some ''notepad.exe'', exe = Some ''C:/Windows/notepad.exe''\<rparr>"

definition windows :: script where
  "windows = \<lparr>sc_system = ''Windows'', sc_pid = 200,
     sc_dir = Some ''C:/Tools/Antigravity Manager'',
     sc_grace = [(100, 1000)], sc_unkillable = [], sc_run = Inr 128, sc_open_uri = Inr False,
     sc_path = Inr None, sc_exists = Inr False, sc_popen = Inl OtherException\<rparr>"

text \<open>An operating system whose enumeration of the processes fails.\<close>

definition no_enumeration :: "sim os" where
  "no_enumeration = (sim_os windows)\<lparr>psutil_process_iter := (\<lambda>w. (Inl OtherException, 0, w))\<rparr>"

text \<open>The controller installed in the directory of the application.\<close>

definition colocated :: script where
  "colocated = windows\<lparr>sc_dir := Some ''C:/Program Files/Antigravity''\<rparr>"

text \<open>A companion of the application that is not the controller.\<close>

definition p_manager :: proc where
  "p_manager = \<lparr>pid = 201, name = Some ''Antigravity Manager.exe'',
                 exe = Some ''C:/Program Files/Antigravity Manager/Antigravity Manager.exe''\<rparr>"

text \<open>A Linux system on which the application is not installed: opening the URI
  reports failure and spawning the executable raises.\<close>

definition linux_missing :: script where
  "linux_missing = \<lparr>sc_system = ''Linux'', sc_pid = 200, sc_dir = Some ''/opt/manager'',
     sc_grace = [], sc_unkillable = [], sc_run = Inr 1, sc_open_uri = Inr False,
     sc_path = Inr None, sc_exists = Inr False, sc_popen = Inl OtherException\<rparr>"

text \<open>The same system when the user presses Ctrl-C while the quit request of the
  platform runs.\<close>

definition interrupted :: script where
  "interrupted = windows\<lparr>sc_run := Inl KeyboardInterrupt\<rparr>"

section \<open>Signals on record\<close>

text \<open>The handles on which \<open>proc.kill()\<close> and \<open>proc.terminate()\<close> were invoked, in the
  order of a trace.\<close>

fun kill_of :: "event \<Rightarrow> proc list" where
  "kill_of (EvKill p) = [p]"
| "kill_of e = []"

fun terminate_of :: "event \<Rightarrow> proc list" where
  "terminate_of (EvTerminate p) = [p]"
| "terminate_of e = []"

definition killed :: "event list \<Rightarrow> proc list" where
  "killed tr = concat (map kill_of tr)"

definition terminated :: "event list \<Rightarrow> proc list" where
  "terminated tr = concat (map terminate_of tr)"

lemma killed_append [simp]: "killed (a @ b) = killed a @ killed b"
  by (simp add: killed_def)

lemma terminated_append [simp]: "terminated (a @ b) = terminated a @ terminated b"
  by (simp add: terminated_def)

lemma killed_Cons [simp]: "killed (e # tr) = kill_of e @ killed tr"
  by (simp add: killed_def)

lemma terminated_Cons [simp]: "terminated (e # tr) = terminate_of e @ terminated tr"
  by (simp add: terminated_def)

lemma killed_Nil [simp]: "killed [] = []"
  by (simp add: killed_def)

lemma terminated_Nil [simp]: "terminated [] = []"
  by (simp add: terminated_def)

subsection \<open>What each step adds to the trace\<close>

lemma trace_log [simp]: "trace (log l m s) = trace s @ [EvLog l m]"
  by (simp add: log_def)

lemma trace_info [simp]: "trace (info m s) = trace s @ [EvLog Info m]"
  by (simp add: info_def)

lemma trace_warning [simp]: "trace (warning m s) = trace s @ [EvLog Warning m]"
  by (simp add: warning_def)

lemma trace_error [simp]: "trace (error m s) = trace s @ [EvLog Error m]"
  by (simp add: error_def)

lemma now_info [simp]: "now (info m s) = now s"
  by (simp add: info_def log_def)

lemma now_warning [simp]: "now (warning m s) = now s"
  by (simp add: warning_def log_def)

lemma now_error [simp]: "now (error m s) = now s"
  by (simp add: error_def log_def)

lemma trace_call: "call f ev s = (r, s') \<Longrightarrow> trace s' = trace s @ [ev r]"
  by (auto simp: call_def split: prod.splits)

lemma trace_sleep: "sleep os d s = (r, s') \<Longrightarrow> trace s' = trace s @ [EvSleep d]"
  by (auto simp: sleep_def split: prod.splits)

lemma trace_process_iter: "process_iter os s = (r, s') \<Longrightarrow> trace s' = trace s @ [EvProcessIter]"
  unfolding process_iter_def by (drule trace_call) simp

lemma trace_run: "run os cmd s = (r, s') \<Longrightarrow> trace s' = trace s @ [EvRun cmd r]"
  unfolding run_def by (drule trace_call) simp

lemma trace_is_running: "is_running os p s = (r, s') \<Longrightarrow> trace s' = trace s @ [EvIsRunning p r]"
  unfolding is_running_def by (drule trace_call) simp

lemma trace_terminate: "terminate os p s = (r, s') \<Longrightarrow> trace s' = trace s @ [EvTerminate p]"
  unfolding terminate_def by (drule trace_call) simp

lemma trace_kill: "kill os p s = (r, s') \<Longrightarrow> trace s' = trace s @ [EvKill p]"
  unfolding kill_def by (drule trace_call) simp

subsection \<open>Steps that send no signal\<close>

lemma quit_request_quiet:
  "quit_request os cmd failed s = (r, s') \<Longrightarrow>
     killed (trace s') = killed (trace s) \<and> terminated (trace s') = terminated (trace s)"
  by (auto simp: quit_request_def except_Exception_def
        split: prod.splits sum.splits if_splits dest!: trace_run trace_sleep)

lemma graceful_exit_quiet:
  "graceful_exit os s = (r, s') \<Longrightarrow>
     killed (trace s') = killed (trace s) \<and> terminated (trace s') = terminated (trace s)"
  by (auto simp: graceful_exit_def split: if_splits dest!: quit_request_quiet)

lemma announce_quiet:
  "killed (trace (announce os s)) = killed (trace s)
   \<and> terminated (trace (announce os s)) = terminated (trace s)"
  by (simp add: announce_def Let_def)

definition shutdown_eligible :: "'w os \<Rightarrow> proc \<Rightarrow> bool" where
  "shutdown_eligible os p =
     (pid p \<noteq> os_getpid os \<and> \<not> in_current_dir os p
      \<and> is_antigravity_close (platform_system os) p)"

lemma collect_targets_filter:
  "fst (collect_targets os ps acc s) = acc @ filter (shutdown_eligible os) ps"
  by (induction ps arbitrary: acc s) (auto simp: shutdown_eligible_def)

lemma collect_targets_quiet:
  "killed (trace (snd (collect_targets os ps acc s))) = killed (trace s)
   \<and> terminated (trace (snd (collect_targets os ps acc s))) = terminated (trace s)"
  by (induction ps arbitrary: acc s) auto

lemma find_targets_quiet:
  "find_targets os s = (r, s') \<Longrightarrow>
     killed (trace s') = killed (trace s) \<and> terminated (trace s') = terminated (trace s)"
proof -
  assume a: "find_targets os s = (r, s')"
  obtain r1 s1 where p: "process_iter os s = (r1, s1)"
    by (cases "process_iter os s")
  have t1: "trace s1 = trace s @ [EvProcessIter]"
    using p by (rule trace_process_iter)
  show ?thesis
  proof (cases r1)
    case (Inl e)
    then show ?thesis using a p t1 by (simp add: find_targets_def)
  next
    case (Inr ps)
    then have "s' = snd (collect_targets os ps [] s1)"
      using a p by (auto simp: find_targets_def split: prod.splits)
    then show ?thesis
      using collect_targets_quiet [of os ps "[]" s1] t1 by simp
  qed
qed

lemma find_targets_eligible:
  "find_targets os s = (Inr tp, s') \<Longrightarrow>
     \<exists>ps s1. process_iter os s = (Inr ps, s1) \<and> tp = filter (shutdown_eligible os) ps"
proof -
  assume a: "find_targets os s = (Inr tp, s')"
  obtain r1 s1 where p: "process_iter os s = (r1, s1)"
    by (cases "process_iter os s")
  show ?thesis
  proof (cases r1)
    case (Inl e)
    then show ?thesis using a p by (simp add: find_targets_def)
  next
    case (Inr ps)
    then have "tp = fst (collect_targets os ps [] s1)"
      using a p by (auto simp: find_targets_def split: prod.splits)
    then show ?thesis
      using p Inr by (simp add: collect_targets_filter)
  qed
qed

lemma scan_quiet:
  "scan os s = (r, s') \<Longrightarrow>
     killed (trace s') = killed (trace s) \<and> terminated (trace s') = terminated (trace s)"
proof -
  assume a: "scan os s = (r, s')"
  obtain r0 s0 where g: "graceful_exit os s = (r0, s0)"
    by (cases "graceful_exit os s")
  have q0: "killed (trace s0) = killed (trace s) \<and> terminated (trace s0) = terminated (trace s)"
    using g by (rule graceful_exit_quiet)
  show ?thesis
  proof (cases r0)
    case (Inl e)
    then show ?thesis using a g q0 by (simp add: scan_def)
  next
    case (Inr u)
    then have "find_targets os s0 = (r, s')"
      using a g by (simp add: scan_def)
    then show ?thesis
      using find_targets_quiet [of os s0 r s'] q0 by simp
  qed
qed

lemma scan_eligible:
  "scan os s = (Inr tp, s') \<Longrightarrow> \<forall>p \<in> set tp. shutdown_eligible os p"
proof -
  assume a: "scan os s = (Inr tp, s')"
  obtain r0 s0 where g: "graceful_exit os s = (r0, s0)"
    by (cases "graceful_exit os s")
  have "find_targets os s0 = (Inr tp, s')"
    using a g by (cases r0) (simp_all add: scan_def)
  then show ?thesis
    using find_targets_eligible [of os s0 tp s'] by auto
qed

lemma send_terminate_signals:
  "send_terminate os ps s = (r, s') \<Longrightarrow>
     killed (trace s') = killed (trace s)
     \<and> (\<exists>ts. terminated (trace s') = terminated (trace s) @ ts \<and> set ts \<subseteq> set ps)"
proof (induction ps arbitrary: s)
  case Nil
  then show ?case by simp
next
  case (Cons p ps)
  obtain r1 s1 where c: "is_running os p s = (r1, s1)"
    by (cases "is_running os p s")
  have t1: "trace s1 = trace s @ [EvIsRunning p r1]"
    using c by (rule trace_is_running)
  obtain r2 s2 where k: "terminate os p s1 = (r2, s2)"
    by (cases "terminate os p s1")
  have t2: "trace s2 = trace s1 @ [EvTerminate p]"
    using k by (rule trace_terminate)
  consider (stop) "s' = s1" | (stopt) "s' = s2" "r1 = Inr True"
    | (skip) "send_terminate os ps s1 = (r, s')"
    | (sent) "send_terminate os ps s2 = (r, s')" "r1 = Inr True"
    using Cons.prems c k
    by (cases r1; cases r2) (auto split: if_splits)
  then show ?case
  proof cases
    case stop
    then show ?thesis using t1 by simp
  next
    case stopt
    have "terminated (trace s') = terminated (trace s) @ [p]" "killed (trace s') = killed (trace s)"
      using stopt t1 t2 by simp_all
    moreover have "set [p] \<subseteq> set (p # ps)" by simp
    ultimately show ?thesis by blast
  next
    case skip
    obtain ts where "killed (trace s') = killed (trace s1)"
      "terminated (trace s') = terminated (trace s1) @ ts" "set ts \<subseteq> set ps"
      using Cons.IH [OF skip] by blast
    then have "killed (trace s') = killed (trace s)"
      "terminated (trace s') = terminated (trace s) @ ts" "set ts \<subseteq> set (p # ps)"
      using t1 by auto
    then show ?thesis by blast
  next
    case sent
    obtain ts where "killed (trace s') = killed (trace s2)"
      "terminated (trace s') = terminated (trace s2) @ ts" "set ts \<subseteq> set ps"
      using Cons.IH [OF sent(1)] by blast
    then have "killed (trace s') = killed (trace s)"
      "terminated (trace s') = terminated (trace s) @ (p # ts)" "set (p # ts) \<subseteq> set (p # ps)"
      using t1 t2 by auto
    then show ?thesis by blast
  qed
qed

lemma collect_running_quiet:
  "collect_running os ps acc s = (r, s') \<Longrightarrow>
     killed (trace s') = killed (trace s) \<and> terminated (trace s') = terminated (trace s)"
proof (induction ps arbitrary: acc s)
  case Nil
  then show ?case by simp
next
  case (Cons p ps)
  obtain r1 s1 where c: "is_running os p s = (r1, s1)"
    by (cases "is_running os p s")
  have t1: "trace s1 = trace s @ [EvIsRunning p r1]"
    using c by (rule trace_is_running)
  show ?case
  proof (cases r1)
    case (Inl e)
    then show ?thesis
      using Cons.prems c t1 Cons.IH [of acc s1] by (auto split: if_splits)
  next
    case (Inr b)
    then show ?thesis
      using Cons.prems c t1 Cons.IH [of "if b then acc @ [p] else acc" s1] by auto
  qed
qed

text \<open>A handle in the result of a round was in the accumulator already, or is one of the
  handles asked and answered in this round that it is running.\<close>

lemma collect_running_observed:
  "collect_running os ps acc s = (Inr still, s') \<Longrightarrow>
     \<exists>obs. trace s' = trace s @ obs
       \<and> (\<forall>p \<in> set still. p \<in> set acc \<or> (p \<in> set ps \<and> EvIsRunning p (Inr True) \<in> set obs))"
proof (induction ps arbitrary: acc s)
  case Nil
  then show ?case by simp
next
  case (Cons q qs)
  obtain r1 s1 where c: "is_running os q s = (r1, s1)"
    by (cases "is_running os q s")
  have t1: "trace s1 = trace s @ [EvIsRunning q r1]"
    using c by (rule trace_is_running)
  show ?case
  proof (cases r1)
    case (Inl e)
    then have rest: "collect_running os qs acc s1 = (Inr still, s')"
      using Cons.prems c by (auto split: if_splits)
    obtain obs where o: "trace s' = trace s1 @ obs"
      "\<forall>p \<in> set still. p \<in> set acc \<or> (p \<in> set qs \<and> EvIsRunning p (Inr True) \<in> set obs)"
      using Cons.IH [OF rest] by blast
    have "trace s' = trace s @ (EvIsRunning q r1 # obs)"
      using o t1 by simp
    moreover have "\<forall>p \<in> set still. p \<in> set acc
        \<or> (p \<in> set (q # qs) \<and> EvIsRunning p (Inr True) \<in> set (EvIsRunning q r1 # obs))"
      using o by auto
    ultimately show ?thesis by blast
  next
    case (Inr b)
    then have rest: "collect_running os qs (if b then acc @ [q] else acc) s1 = (Inr still, s')"
      using Cons.prems c by auto
    obtain obs where o: "trace s' = trace s1 @ obs"
      "\<forall>p \<in> set still. p \<in> set (if b then acc @ [q] else acc)
         \<or> (p \<in> set qs \<and> EvIsRunning p (Inr True) \<in> set obs)"
      using Cons.IH [OF rest] by blast
    have "trace s' = trace s @ (EvIsRunning q r1 # obs)"
      using o t1 by simp
    moreover have "\<forall>p \<in> set still. p \<in> set acc
        \<or> (p \<in> set (q # qs) \<and> EvIsRunning p (Inr True) \<in> set (EvIsRunning q r1 # obs))"
      using o Inr by (auto split: if_splits)
    ultimately show ?thesis by blast
  qed
qed

declare wait_for_exit.simps [simp del]

lemma wait_for_exit_quiet:
  "wait_for_exit os start_time timeout tp sr s = (r, s') \<Longrightarrow>
     killed (trace s') = killed (trace s) \<and> terminated (trace s') = terminated (trace s)"
proof (induction os start_time timeout tp sr s rule: wait_for_exit.induct)
  case (1 os start_time timeout tp sr s)
  show ?case
  proof (cases "now s - start_time < timeout * 1000")
    case False
    then show ?thesis
      using "1.prems" by (simp add: wait_for_exit.simps)
  next
    case True
    obtain r1 s1 where c: "collect_running os tp [] s = (r1, s1)"
      by (cases "collect_running os tp [] s")
    have q1: "killed (trace s1) = killed (trace s) \<and> terminated (trace s1) = terminated (trace s)"
      using c by (rule collect_running_quiet)
    obtain r2 s2 where sl: "sleep os 500 s1 = (r2, s2)"
      by (cases "sleep os 500 s1")
    have q2: "killed (trace s2) = killed (trace s) \<and> terminated (trace s2) = terminated (trace s)"
      using trace_sleep [OF sl] q1 by simp
    show ?thesis
    proof (cases r1)
      case (Inl e)
      then show ?thesis
        using "1.prems" True c q1 by (simp add: wait_for_exit.simps)
    next
      case (Inr still)
      show ?thesis
      proof (cases "still = []")
        case True
        then show ?thesis
          using "1.prems" \<open>now s - start_time < timeout * 1000\<close> c q1 Inr
          by (auto simp: wait_for_exit.simps)
      next
        case False
        show ?thesis
        proof (cases r2)
          case (Inl e)
          then show ?thesis
            using "1.prems" True c \<open>r1 = Inr still\<close> False sl q2
            by (simp add: wait_for_exit.simps)
        next
          case (Inr u)
          have rec: "wait_for_exit os start_time timeout tp (Some still) s2 = (r, s')"
            using "1.prems" True c \<open>r1 = Inr still\<close> False sl Inr
            by (simp add: wait_for_exit.simps)
          have "killed (trace s') = killed (trace s2)
                \<and> terminated (trace s') = terminated (trace s2)"
            using "1.IH" [OF True c [symmetric] \<open>r1 = Inr still\<close> False sl [symmetric] Inr rec] .
          then show ?thesis
            using q2 by simp
        qed
      qed
    qed
  qed
qed

text \<open>How the loop is left by its condition: with the variable as it was when the loop
  was entered, or as the last round bound it. That round began within the timeout, it
  found somebody running, and the timeout was over after the sleep that followed it.\<close>

lemma wait_for_exit_LoopEnd:
  "wait_for_exit os start_time timeout tp sr s = (Inr (LoopEnd sr'), s') \<Longrightarrow>
     (sr' = sr \<and> s' = s \<and> \<not> now s - start_time < timeout * 1000)
     \<or> (\<exists>still sa sb. sr' = Some still \<and> still \<noteq> []
           \<and> now sa - start_time < timeout * 1000
           \<and> collect_running os tp [] sa = (Inr still, sb)
           \<and> sleep os 500 sb = (Inr (), s')
           \<and> \<not> now s' - start_time < timeout * 1000)"
proof (induction os start_time timeout tp sr s rule: wait_for_exit.induct)
  case (1 os start_time timeout tp sr s)
  show ?case
  proof (cases "now s - start_time < timeout * 1000")
    case False
    then show ?thesis
      using "1.prems" by (simp add: wait_for_exit.simps)
  next
    case True
    obtain r1 s1 where c: "collect_running os tp [] s = (r1, s1)"
      by (cases "collect_running os tp [] s")
    obtain r2 s2 where sl: "sleep os 500 s1 = (r2, s2)"
      by (cases "sleep os 500 s1")
    show ?thesis
    proof (cases r1)
      case (Inl e)
      then show ?thesis
        using "1.prems" True c by (simp add: wait_for_exit.simps)
    next
      case (Inr still)
      show ?thesis
      proof (cases "still = []")
        case True
        then show ?thesis
          using "1.prems" \<open>now s - start_time < timeout * 1000\<close> c Inr
          by (simp add: wait_for_exit.simps)
      next
        case False
        show ?thesis
        proof (cases r2)
          case (Inl e)
          then show ?thesis
            using "1.prems" True c \<open>r1 = Inr still\<close> False sl
            by (simp add: wait_for_exit.simps)
        next
          case (Inr u)
          have rec: "wait_for_exit os start_time timeout tp (Some still) s2
                       = (Inr (LoopEnd sr'), s')"
            using "1.prems" True c \<open>r1 = Inr still\<close> False sl Inr
            by (simp add: wait_for_exit.simps)
          from "1.IH" [OF True c [symmetric] \<open>r1 = Inr still\<close> False sl [symmetric] Inr rec]
          show ?thesis
          proof
            assume "sr' = Some still \<and> s' = s2 \<and> \<not> now s2 - start_time < timeout * 1000"
            then show ?thesis
              using True c \<open>r1 = Inr still\<close> False sl Inr by auto
          next
            assume "\<exists>still sa sb. sr' = Some still \<and> still \<noteq> []
             \<and> now sa - start_time < timeout * 1000
             \<and> collect_running os tp [] sa = (Inr still, sb)
             \<and> sleep os 500 sb = (Inr (), s')
             \<and> \<not> now s' - start_time < timeout * 1000"
            then show ?thesis by blast
          qed
        qed
      qed
    qed
  qed
qed

lemma kill_all_signals:
  "kill_all os ps s = (r, s') \<Longrightarrow>
     terminated (trace s') = terminated (trace s)
     \<and> (\<exists>ks. killed (trace s') = killed (trace s) @ ks \<and> set ks \<subseteq> set ps)"
proof (induction ps arbitrary: s)
  case Nil
  then show ?case by simp
next
  case (Cons p ps)
  obtain r1 s1 where c: "is_running os p s = (r1, s1)"
    by (cases "is_running os p s")
  have t1: "trace s1 = trace s @ [EvIsRunning p r1]"
    using c by (rule trace_is_running)
  obtain r2 s2 where k: "kill os p s1 = (r2, s2)"
    by (cases "kill os p s1")
  have t2: "trace s2 = trace s1 @ [EvKill p]"
    using k by (rule trace_kill)
  consider (stop) "terminated (trace s') = terminated (trace s)" "killed (trace s') = killed (trace s)"
    | (stopk) "terminated (trace s') = terminated (trace s)" "killed (trace s') = killed (trace s) @ [p]"
    | (skip) "kill_all os ps s1 = (r, s')"
    | (killed) "kill_all os ps s2 = (r, s')"
    using Cons.prems c k t1 t2
    by (cases r1; cases r2) (auto split: if_splits)
  then show ?case
  proof cases
    case stop
    then show ?thesis by simp
  next
    case stopk
    then show ?thesis by simp
  next
    case skip
    obtain ks where "terminated (trace s') = terminated (trace s1)"
      "killed (trace s') = killed (trace s1) @ ks" "set ks \<subseteq> set ps"
      using Cons.IH [OF skip] by blast
    then have "terminated (trace s') = terminated (trace s)"
      "killed (trace s') = killed (trace s) @ ks" "set ks \<subseteq> set (p # ps)"
      using t1 by auto
    then show ?thesis by blast
  next
    case killed
    obtain ks where "terminated (trace s') = terminated (trace s2)"
      "killed (trace s') = killed (trace s2) @ ks" "set ks \<subseteq> set ps"
      using Cons.IH [OF killed] by blast
    then have "terminated (trace s') = terminated (trace s)"
      "killed (trace s') = killed (trace s) @ (p # ks)" "set (p # ks) \<subseteq> set (p # ps)"
      using t1 t2 by auto
    then show ?thesis by blast
  qed
qed

lemma force_kill_phase_signals:
  "force_kill_phase os force_kill sr s = (r, s') \<Longrightarrow>
     terminated (trace s') = terminated (trace s)
     \<and> (\<exists>ks. killed (trace s') = killed (trace s) @ ks
            \<and> set ks \<subseteq> (case sr of None \<Rightarrow> {} | Some still \<Rightarrow> set still)
            \<and> (\<not> force_kill \<longrightarrow> ks = []))"
proof -
  assume a: "force_kill_phase os force_kill sr s = (r, s')"
  show ?thesis
  proof (cases sr)
    case None
    then show ?thesis
      using a by (auto simp: force_kill_phase_def)
  next
    case (Some still)
    show ?thesis
    proof (cases "still \<noteq> [] \<and> force_kill")
      case False
      then show ?thesis
        using a Some by (auto simp: force_kill_phase_def Let_def split: if_splits)
    next
      case True
      let ?s1 = "info ''Sending force kill signal (SIGKILL)...''
                   (warning ''{len(still_running)} process(es) still running: {still_running_names}'' s)"
      obtain r2 s2 where k: "kill_all os still ?s1 = (r2, s2)"
        by (cases "kill_all os still ?s1")
      obtain ks where ks: "terminated (trace s2) = terminated (trace ?s1)"
        "killed (trace s2) = killed (trace ?s1) @ ks" "set ks \<subseteq> set still"
        using kill_all_signals [OF k] by blast
      obtain r3 s3 where sl: "sleep os 1000 s2 = (r3, s3)"
        by (cases "sleep os 1000 s2")
      have q3: "killed (trace s3) = killed (trace s2) \<and> terminated (trace s3) = terminated (trace s2)"
        using trace_sleep [OF sl] by simp
      obtain r4 s4 where f: "collect_running os still [] s3 = (r4, s4)"
        by (cases "collect_running os still [] s3")
      have q4: "killed (trace s4) = killed (trace s3) \<and> terminated (trace s4) = terminated (trace s3)"
        using collect_running_quiet [OF f] by simp
      have "terminated (trace s') = terminated (trace s) \<and> killed (trace s') = killed (trace s) @ ks"
        using a Some True k sl f ks q3 q4
        by (cases r2; cases r3; cases r4)
           (auto simp: force_kill_phase_def Let_def split: if_splits)
      then show ?thesis
        using ks Some True by auto
    qed
  qed
qed

lemma request_termination_signals:
  "request_termination os tp s = (r, s') \<Longrightarrow>
     killed (trace s') = killed (trace s)
     \<and> (\<exists>ts. terminated (trace s') = terminated (trace s) @ ts \<and> set ts \<subseteq> set tp)"
proof -
  assume a: "request_termination os tp s = (r, s')"
  let ?s0 = "info ''Sending termination signal (SIGTERM)...''
               (info ''Detected {len(target_processes)} process(es) still running'' s)"
  obtain r1 s1 where st: "send_terminate os tp ?s0 = (r1, s1)"
    by (cases "send_terminate os tp ?s0")
  obtain ts where ts: "killed (trace s1) = killed (trace ?s0)"
    "terminated (trace s1) = terminated (trace ?s0) @ ts" "set ts \<subseteq> set tp"
    using send_terminate_signals [OF st] by blast
  have "killed (trace s') = killed (trace s) \<and> terminated (trace s') = terminated (trace s) @ ts"
    using a st ts by (cases r1) (auto simp: request_termination_def)
  then show ?thesis
    using ts(3) by blast
qed

text \<open>The ways through \<open>polling\<close>.\<close>

lemma polling_cases:
  assumes "polling os timeout s = (r, s3)"
  obtains (raised) e where "scan os s = (Inl e, s3)" "r = Inl e"
    | (none) s1 where "scan os s = (Inr [], s1)" "r = Inr ReturnTrue"
        "s3 = info ''All Antigravity processes have been closed'' s1"
    | (interrupted) tp s1 e where "scan os s = (Inr tp, s1)" "tp \<noteq> []"
        "request_termination os tp s1 = (Inl e, s3)" "r = Inl e"
    | (some) tp s1 s2 where "scan os s = (Inr tp, s1)" "tp \<noteq> []"
        "request_termination os tp s1 = (Inr (), s2)"
        "wait_for_exit os (now s2) timeout tp None s2 = (r, s3)"
proof -
  obtain r1 s1 where f: "scan os s = (r1, s1)"
    by (cases "scan os s")
  show ?thesis
  proof (cases r1)
    case (Inl e)
    then show ?thesis
      using assms f raised by (simp add: polling_def)
  next
    case (Inr tp)
    show ?thesis
    proof (cases "tp = []")
      case True
      then show ?thesis
        using assms f Inr none by (simp add: polling_def)
    next
      case False
      obtain r2 s2 where q: "request_termination os tp s1 = (r2, s2)"
        by (cases "request_termination os tp s1")
      show ?thesis
      proof (cases r2)
        case (Inl e)
        then show ?thesis
          using assms f \<open>r1 = Inr tp\<close> False q interrupted by (simp add: polling_def)
      next
        case (Inr u)
        then show ?thesis
          using assms f \<open>r1 = Inr tp\<close> False q some by (simp add: polling_def Let_def)
      qed
    qed
  qed
qed

lemma close_antigravity_signals_of_body:
  "close_body os timeout force_kill (announce os s) = (r, s1) \<Longrightarrow>
     killed (trace (snd (close_antigravity os timeout force_kill s))) = killed (trace s1)
     \<and> terminated (trace (snd (close_antigravity os timeout force_kill s))) = terminated (trace s1)"
  by (cases r) (simp_all add: close_antigravity_def except_Exception_def)

lemma polling_kills:
  assumes "polling os timeout s = (r, s3)"
  shows "killed (trace s3) = killed (trace s)"
  using assms
proof (cases rule: polling_cases)
  case (raised e)
  then show ?thesis
    using scan_quiet by fastforce
next
  case (none s1)
  then show ?thesis
    using scan_quiet [of os s "Inr []" s1] by simp
next
  case (interrupted tp s1 e)
  then show ?thesis
    using request_termination_signals [OF interrupted(3)] scan_quiet [OF interrupted(1)] by simp
next
  case (some tp s1 s2)
  have "killed (trace s3) = killed (trace s2)"
    using wait_for_exit_quiet [OF some(4)] by simp
  then show ?thesis
    using request_termination_signals [OF some(3)] scan_quiet [OF some(1)] by simp
qed

subsection \<open>Facts about strings\<close>

lemma prefix_str_in: "prefix a b \<Longrightarrow> str_in a b"
  by (cases b) auto

lemma prefix_lower: "prefix a b \<Longrightarrow> prefix (lower a) (lower b)"
  by (auto simp: prefix_def lower_def)

lemma lower_Nil_iff [simp]: "lower e = [] \<longleftrightarrow> e = []"
  by (simp add: lower_def)

lemma manager_not_target_name:
  "str_in ''manager'' n \<Longrightarrow> n \<noteq> ''antigravity.exe'' \<and> n \<noteq> ''antigravity''"
  by auto

subsection \<open>The signals of a whole call go to targets\<close>

lemma polling_terminated:
  assumes "polling os timeout s = (r, s3)"
  shows "\<exists>ts. terminated (trace s3) = terminated (trace s) @ ts
           \<and> (\<forall>p \<in> set ts. shutdown_eligible os p)"
  using assms
proof (cases rule: polling_cases)
  case (raised e)
  then show ?thesis
    using scan_quiet by fastforce
next
  case (none s1)
  then show ?thesis
    using scan_quiet [of os s "Inr []" s1] by simp
next
  case (interrupted tp s1 e)
  have e: "\<forall>p \<in> set tp. shutdown_eligible os p"
    using scan_eligible [OF interrupted(1)] .
  obtain ts where ts: "terminated (trace s3) = terminated (trace s1) @ ts" "set ts \<subseteq> set tp"
    using request_termination_signals [OF interrupted(3)] by blast
  then have "terminated (trace s3) = terminated (trace s) @ ts"
    using scan_quiet [OF interrupted(1)] by simp
  then show ?thesis
    using ts e by blast
next
  case (some tp s1 s2)
  have e: "\<forall>p \<in> set tp. shutdown_eligible os p"
    using scan_eligible [OF some(1)] .
  obtain ts where ts: "terminated (trace s2) = terminated (trace s1) @ ts" "set ts \<subseteq> set tp"
    using request_termination_signals [OF some(3)] by blast
  have "terminated (trace s3) = terminated (trace s2)"
    using wait_for_exit_quiet [OF some(4)] by simp
  then have "terminated (trace s3) = terminated (trace s) @ ts"
    using ts scan_quiet [OF some(1)] by simp
  then show ?thesis
    using ts e by blast
qed

lemma polling_survivors:
  assumes "polling os timeout s = (Inr (LoopEnd (Some still)), s3)"
  shows "\<forall>p \<in> set still. shutdown_eligible os p"
  using assms
proof (cases rule: polling_cases)
  case (raised e)
  then show ?thesis by simp
next
  case (none s1)
  then show ?thesis by simp
next
  case (interrupted tp s1 e)
  then show ?thesis by simp
next
  case (some tp s1 s2)
  have e: "\<forall>p \<in> set tp. shutdown_eligible os p"
    using scan_eligible [OF some(1)] .
  obtain sa sb where "collect_running os tp [] sa = (Inr still, sb)"
    using wait_for_exit_LoopEnd [OF some(4)] by auto
  then have "set still \<subseteq> set tp"
    using collect_running_observed [of os tp "[]" sa still sb] by auto
  then show ?thesis
    using e by blast
qed

lemma close_body_signals:
  assumes "close_body os timeout force_kill s = (r, s')"
  shows "\<exists>ts ks. terminated (trace s') = terminated (trace s) @ ts
           \<and> killed (trace s') = killed (trace s) @ ks
           \<and> (\<forall>p \<in> set ts \<union> set ks. shutdown_eligible os p)"
proof -
  obtain r3 s3 where p: "polling os timeout s = (r3, s3)"
    by (cases "polling os timeout s")
  obtain ts where ts: "terminated (trace s3) = terminated (trace s) @ ts"
    "\<forall>p \<in> set ts. shutdown_eligible os p"
    using polling_terminated [OF p] by blast
  have k3: "killed (trace s3) = killed (trace s)"
    using polling_kills [OF p] .
  have quiet: "r3 = Inl e \<or> r3 = Inr ReturnTrue \<Longrightarrow> ?thesis" for e
    using assms p ts k3 by (auto simp: close_body_def)
  show ?thesis
  proof (cases r3)
    case (Inl e)
    then show ?thesis using quiet by blast
  next
    case (Inr x)
    show ?thesis
    proof (cases x)
      case ReturnTrue
      then show ?thesis using quiet Inr by blast
    next
      case (LoopEnd sr)
      have f: "force_kill_phase os force_kill sr s3 = (r, s')"
        using assms p Inr LoopEnd by (simp add: close_body_def)
      obtain ks where ks: "terminated (trace s') = terminated (trace s3)"
        "killed (trace s') = killed (trace s3) @ ks"
        "set ks \<subseteq> (case sr of None \<Rightarrow> {} | Some still \<Rightarrow> set still)"
        using force_kill_phase_signals [OF f] by blast
      have "\<forall>p \<in> set ks. shutdown_eligible os p"
      proof (cases sr)
        case None
        then show ?thesis using ks by simp
      next
        case (Some still)
        then show ?thesis
          using ks polling_survivors [of os timeout s still s3] p Inr LoopEnd by auto
      qed
      then have "terminated (trace s') = terminated (trace s) @ ts
           \<and> killed (trace s') = killed (trace s) @ ks
           \<and> (\<forall>p \<in> set ts \<union> set ks. shutdown_eligible os p)"
        using ks ts k3 by auto
      then show ?thesis by blast
    qed
  qed
qed

lemma close_antigravity_signals:
  "\<exists>ts ks. terminated (trace (snd (close_antigravity os timeout force_kill s)))
              = terminated (trace s) @ ts
           \<and> killed (trace (snd (close_antigravity os timeout force_kill s)))
              = killed (trace s) @ ks
           \<and> (\<forall>p \<in> set ts \<union> set ks. shutdown_eligible os p)"
proof -
  obtain r s1 where b: "close_body os timeout force_kill (announce os s) = (r, s1)"
    by (cases "close_body os timeout force_kill (announce os s)")
  show ?thesis
    using close_body_signals [OF b] close_antigravity_signals_of_body [OF b]
      announce_quiet [of os s] by simp
qed

subsection \<open>Self-exclusion\<close>

text \<open>A path lies under a directory when it begins with the directory and goes on.\<close>

definition lies_under :: "string \<Rightarrow> string \<Rightarrow> bool" where
  "lies_under dir path = (prefix dir path \<and> dir \<noteq> path)"

lemma self_excluded_not_eligible:
  assumes "pid p = os_getpid os
           \<or> (\<exists>d e. executable_dir os = Some d \<and> exe p = Some e \<and> e \<noteq> [] \<and> lies_under d e)"
  shows "\<not> shutdown_eligible os p"
  using assms
proof
  assume "pid p = os_getpid os"
  then show ?thesis by (simp add: shutdown_eligible_def)
next
  assume "\<exists>d e. executable_dir os = Some d \<and> exe p = Some e \<and> e \<noteq> [] \<and> lies_under d e"
  then obtain d e where de: "executable_dir os = Some d" "exe p = Some e" "e \<noteq> []" "prefix d e"
    by (auto simp: lies_under_def)
  have "str_in (lower d) (lower e)"
    using de(4) by (intro prefix_str_in prefix_lower)
  then have "in_current_dir os p"
    using de by (simp add: in_current_dir_def exe_path_def)
  then show ?thesis by (simp add: shutdown_eligible_def)
qed

text \<open>Lower-casing reaches the accented letters: a controller installed in a
  directory whose name ends in the capital E with acute accent (code point 201)
  excludes a process started from the directory spelled with the small letter (code
  point 233).\<close>

lemma accented_directory_excluded:
  "in_current_dir (sim_os (windows\<lparr>sc_dir := Some (''C:/App'' @ [CHR 0xC9])\<rparr>))
     \<lparr>pid = 100, name = Some ''Antigravity.exe'',
      exe = Some (''C:/App'' @ [CHR 0xE9] @ ''/Antigravity.exe'')\<rparr>"
  by code_simp

subsection \<open>Classification\<close>

lemma close_antigravity_empty:
  assumes "scan os (announce os s) = (Inr [], s1)"
  shows "close_antigravity os timeout force_kill s
           = (Inr True, info ''All Antigravity processes have been closed'' s1)"
    and "killed (trace s1) = killed (trace s)"
    and "terminated (trace s1) = terminated (trace s)"
proof -
  show "close_antigravity os timeout force_kill s
             = (Inr True, info ''All Antigravity processes have been closed'' s1)"
    using assms
    by (simp add: close_antigravity_def except_Exception_def close_body_def polling_def)
  show "killed (trace s1) = killed (trace s)" "terminated (trace s1) = terminated (trace s)"
    using scan_quiet [OF assms] announce_quiet [of os s] by simp_all
qed

lemma manager_not_close_target:
  "str_in ''manager'' (process_name_lower p) \<Longrightarrow> \<not> is_antigravity_close ''Windows'' p"
  using manager_not_target_name [of "process_name_lower p"]
  by (simp add: is_antigravity_close_def Let_def)

lemma close_rule_stricter:
  "is_antigravity_close system p \<Longrightarrow> is_antigravity system p"
  by (auto simp: is_antigravity_close_def is_antigravity_def Let_def split: if_splits)

lemma any_antigravity_iff: "any_antigravity system ps \<longleftrightarrow> (\<exists>p \<in> set ps. is_antigravity system p)"
  by (induction ps) auto

subsection \<open>The loop that kills\<close>

text \<open>In the loop that kills, every \<open>kill\<close> comes directly after the answer of the
  same handle that it is running.\<close>

lemma kill_all_guarded:
  "kill_all os ps s = (r, s') \<Longrightarrow>
     \<exists>evs. trace s' = trace s @ evs
       \<and> (\<forall>p \<in> set (killed evs).
             \<exists>pre post. evs = pre @ EvIsRunning p (Inr True) # EvKill p # post)"
proof (induction ps arbitrary: s)
  case Nil
  then show ?case by simp
next
  case (Cons q qs)
  obtain r1 s1 where c: "is_running os q s = (r1, s1)"
    by (cases "is_running os q s")
  have t1: "trace s1 = trace s @ [EvIsRunning q r1]"
    using c by (rule trace_is_running)
  show ?case
  proof (cases "r1 = Inr True")
    case False
    then consider (stop) "s' = s1" | (skip) "kill_all os qs s1 = (r, s')"
      using Cons.prems c by (cases r1) (auto split: if_splits)
    then show ?thesis
    proof cases
      case stop
      then show ?thesis using t1 by simp
    next
      case skip
      obtain evs where e: "trace s' = trace s1 @ evs"
        "\<forall>p \<in> set (killed evs). \<exists>pre post. evs = pre @ EvIsRunning p (Inr True) # EvKill p # post"
        using Cons.IH [OF skip] by blast
      have "trace s' = trace s @ (EvIsRunning q r1 # evs)"
        using e(1) t1 by simp
      moreover have "\<exists>pre post. EvIsRunning q r1 # evs = pre @ EvIsRunning p (Inr True) # EvKill p # post"
        if "p \<in> set (killed (EvIsRunning q r1 # evs))" for p
      proof -
        have "p \<in> set (killed evs)" using that by simp
        then obtain pre post where "evs = pre @ EvIsRunning p (Inr True) # EvKill p # post"
          using e(2) by blast
        then have "EvIsRunning q r1 # evs = (EvIsRunning q r1 # pre) @ EvIsRunning p (Inr True) # EvKill p # post"
          by simp
        then show ?thesis by blast
      qed
      ultimately show ?thesis by blast
    qed
  next
    case True
    obtain r2 s2 where k: "kill os q s1 = (r2, s2)"
      by (cases "kill os q s1")
    have t2: "trace s2 = trace s @ [EvIsRunning q (Inr True), EvKill q]"
      using trace_kill [OF k] t1 True by simp
    consider (stop) "s' = s2" | (go_on) "kill_all os qs s2 = (r, s')"
      using Cons.prems c k True by (cases r2) (auto split: if_splits)
    then show ?thesis
    proof cases
      case stop
      have "[EvIsRunning q (Inr True), EvKill q] = [] @ EvIsRunning q (Inr True) # EvKill q # []"
        by simp
      then show ?thesis
        using t2 stop by (intro exI [of _ "[EvIsRunning q (Inr True), EvKill q]"]) auto
    next
      case go_on
      obtain evs where e: "trace s' = trace s2 @ evs"
        "\<forall>p \<in> set (killed evs). \<exists>pre post. evs = pre @ EvIsRunning p (Inr True) # EvKill p # post"
        using Cons.IH [OF go_on] by blast
      let ?evs = "EvIsRunning q (Inr True) # EvKill q # evs"
      have "trace s' = trace s @ ?evs"
        using e(1) t2 by simp
      moreover have "\<exists>pre post. ?evs = pre @ EvIsRunning p (Inr True) # EvKill p # post"
        if "p \<in> set (killed ?evs)" for p
      proof (cases "p = q")
        case True
        have "?evs = [] @ EvIsRunning q (Inr True) # EvKill q # evs"
          by simp
        then show ?thesis using True by blast
      next
        case False
        then have "p \<in> set (killed evs)" using that by simp
        then obtain pre post where "evs = pre @ EvIsRunning p (Inr True) # EvKill p # post"
          using e(2) by blast
        then have "?evs = (EvIsRunning q (Inr True) # EvKill q # pre)
                      @ EvIsRunning p (Inr True) # EvKill p # post"
          by simp
        then show ?thesis by blast
      qed
      ultimately show ?thesis by blast
    qed
  qed
qed

text \<open>The state in which the loop that kills begins (lines 191--195).\<close>

definition before_kill :: "'w state \<Rightarrow> 'w state" where
  "before_kill s =
     info ''Sending force kill signal (SIGKILL)...''
       (warning ''{len(still_running)} process(es) still running: {still_running_names}'' s)"

lemma force_kill_phase_kills:
  assumes "force_kill_phase os force_kill (Some still) s = (r, s')"
      and "killed (trace s') \<noteq> killed (trace s)"
  shows "force_kill \<and> still \<noteq> []
         \<and> killed (trace s') = killed (trace (snd (kill_all os still (before_kill s))))"
proof -
  have fk: "force_kill \<and> still \<noteq> []"
    using assms by (auto simp: force_kill_phase_def Let_def split: if_splits)
  obtain r2 s2 where k: "kill_all os still (before_kill s) = (r2, s2)"
    by (cases "kill_all os still (before_kill s)")
  obtain r3 s3 where sl: "sleep os 1000 s2 = (r3, s3)"
    by (cases "sleep os 1000 s2")
  have q3: "killed (trace s3) = killed (trace s2)"
    using trace_sleep [OF sl] by simp
  obtain r4 s4 where f: "collect_running os still [] s3 = (r4, s4)"
    by (cases "collect_running os still [] s3")
  have q4: "killed (trace s4) = killed (trace s3)"
    using collect_running_quiet [OF f] by simp
  have "killed (trace s') = killed (trace s2)"
    using assms(1) fk k sl f q3 q4
    by (cases r2; cases r3; cases r4)
       (auto simp: force_kill_phase_def before_kill_def Let_def split: if_splits)
  then show ?thesis
    using fk k by simp
qed

subsection \<open>Which exceptions leave the body\<close>

text \<open>An outcome is ordinary when it is a value or an exception that is an
  \<open>Exception\<close>. \<open>no_interrupt os\<close>: no primitive that \<open>close_antigravity\<close> calls
  ever raises anything else.\<close>

definition ordinary :: "exn + 'a \<Rightarrow> bool" where
  "ordinary r = (case r of Inl e \<Rightarrow> is_Exception e | Inr v \<Rightarrow> True)"

definition no_interrupt :: "'w os \<Rightarrow> bool" where
  "no_interrupt os =
     (\<forall>w. ordinary (fst (psutil_process_iter os w))
        \<and> (\<forall>cmd. ordinary (fst (subprocess_run os cmd w)))
        \<and> (\<forall>p. ordinary (fst (proc_is_running os p w)))
        \<and> (\<forall>p. ordinary (fst (proc_terminate os p w)))
        \<and> (\<forall>p. ordinary (fst (proc_kill os p w)))
        \<and> (\<forall>d. ordinary (fst (time_sleep os d w))))"

lemma ordinary_Inr [simp]: "ordinary (Inr v)"
  by (simp add: ordinary_def)

lemma ordinary_Inl [simp]: "ordinary (Inl e) = is_Exception e"
  by (simp add: ordinary_def)

lemma call_ordinary: "ordinary (fst (f (world s))) \<Longrightarrow> ordinary (fst (call f ev s))"
  by (auto simp: call_def split: prod.splits)

lemma process_iter_ordinary: "no_interrupt os \<Longrightarrow> ordinary (fst (process_iter os s))"
  unfolding process_iter_def by (rule call_ordinary) (simp add: no_interrupt_def)

lemma run_ordinary: "no_interrupt os \<Longrightarrow> ordinary (fst (run os cmd s))"
  unfolding run_def by (rule call_ordinary) (simp add: no_interrupt_def)

lemma is_running_ordinary: "no_interrupt os \<Longrightarrow> ordinary (fst (is_running os p s))"
  unfolding is_running_def by (rule call_ordinary) (simp add: no_interrupt_def)

lemma terminate_ordinary: "no_interrupt os \<Longrightarrow> ordinary (fst (terminate os p s))"
  unfolding terminate_def by (rule call_ordinary) (simp add: no_interrupt_def)

lemma kill_ordinary: "no_interrupt os \<Longrightarrow> ordinary (fst (kill os p s))"
  unfolding kill_def by (rule call_ordinary) (simp add: no_interrupt_def)

lemma sleep_ordinary: "no_interrupt os \<Longrightarrow> ordinary (fst (sleep os d s))"
proof -
  assume "no_interrupt os"
  then have "ordinary (fst (time_sleep os d (world s)))"
    by (simp add: no_interrupt_def)
  then show ?thesis
    by (auto simp: sleep_def split: prod.splits)
qed

lemma quit_request_ordinary:
  assumes "no_interrupt os"
  shows "ordinary (fst (quit_request os cmd failed s))"
proof -
  obtain r1 s1 where r: "run os cmd s = (r1, s1)"
    by (cases "run os cmd s")
  have o1: "ordinary r1"
    using run_ordinary [OF assms, of cmd s] r by simp
  let ?s2 = "info ''Quit request sent, waiting for app to respond...'' s1"
  obtain r3 s3 where sl: "sleep os 2000 ?s2 = (r3, s3)"
    by (cases "sleep os 2000 ?s2")
  have o3: "ordinary r3"
    using sleep_ordinary [OF assms, of 2000 ?s2] sl by simp
  show ?thesis
    using r sl o1 o3
    by (cases r1; cases r3) (auto simp: quit_request_def except_Exception_def)
qed

lemma graceful_exit_ordinary:
  "no_interrupt os \<Longrightarrow> ordinary (fst (graceful_exit os s))"
  by (simp add: graceful_exit_def quit_request_ordinary)

lemma find_targets_ordinary:
  assumes "no_interrupt os"
  shows "ordinary (fst (find_targets os s))"
  using process_iter_ordinary [OF assms, of s]
  by (auto simp: find_targets_def split: prod.splits sum.splits)

lemma scan_ordinary:
  assumes "no_interrupt os"
  shows "ordinary (fst (scan os s))"
  using graceful_exit_ordinary [OF assms, of s] find_targets_ordinary [OF assms]
  by (auto simp: scan_def split: prod.splits sum.splits)

lemma send_terminate_ordinary:
  assumes "no_interrupt os"
  shows "ordinary (fst (send_terminate os ps s))"
proof (induction ps arbitrary: s)
  case Nil
  then show ?case by simp
next
  case (Cons p ps)
  obtain r1 s1 where c: "is_running os p s = (r1, s1)"
    by (cases "is_running os p s")
  have o1: "ordinary r1"
    using is_running_ordinary [OF assms, of p s] c by simp
  obtain r2 s2 where k: "terminate os p s1 = (r2, s2)"
    by (cases "terminate os p s1")
  have o2: "ordinary r2"
    using terminate_ordinary [OF assms, of p s1] k by simp
  show ?case
    using c k o1 o2 Cons.IH [of s1] Cons.IH [of s2]
    by (cases r1; cases r2) auto
qed

lemma request_termination_ordinary:
  assumes "no_interrupt os"
  shows "ordinary (fst (request_termination os tp s))"
  using send_terminate_ordinary [OF assms]
  by (auto simp: request_termination_def split: prod.splits sum.splits)
     (metis fst_conv ordinary_Inl)

lemma collect_running_ordinary:
  assumes "no_interrupt os"
  shows "ordinary (fst (collect_running os ps acc s))"
proof (induction ps arbitrary: acc s)
  case Nil
  then show ?case by simp
next
  case (Cons p ps)
  obtain r1 s1 where c: "is_running os p s = (r1, s1)"
    by (cases "is_running os p s")
  have o1: "ordinary r1"
    using is_running_ordinary [OF assms, of p s] c by simp
  show ?case
    using c o1 Cons.IH
    by (cases r1) auto
qed

lemma kill_all_ordinary:
  assumes "no_interrupt os"
  shows "ordinary (fst (kill_all os ps s))"
proof (induction ps arbitrary: s)
  case Nil
  then show ?case by simp
next
  case (Cons p ps)
  obtain r1 s1 where c: "is_running os p s = (r1, s1)"
    by (cases "is_running os p s")
  have o1: "ordinary r1"
    using is_running_ordinary [OF assms, of p s] c by simp
  obtain r2 s2 where k: "kill os p s1 = (r2, s2)"
    by (cases "kill os p s1")
  have o2: "ordinary r2"
    using kill_ordinary [OF assms, of p s1] k by simp
  show ?case
    using c k o1 o2 Cons.IH [of s1] Cons.IH [of s2]
    by (cases r1; cases r2) auto
qed

lemma wait_for_exit_ordinary:
  assumes "no_interrupt os"
  shows "ordinary (fst (wait_for_exit os start_time timeout tp sr s))"
  using assms
proof (induction os start_time timeout tp sr s rule: wait_for_exit.induct)
  case (1 os start_time timeout tp sr s)
  show ?case
  proof (cases "now s - start_time < timeout * 1000")
    case False
    then show ?thesis
      by (simp add: wait_for_exit.simps)
  next
    case True
    obtain r1 s1 where c: "collect_running os tp [] s = (r1, s1)"
      by (cases "collect_running os tp [] s")
    have o1: "ordinary r1"
      using collect_running_ordinary [OF "1.prems", of tp "[]" s] c by simp
    obtain r2 s2 where sl: "sleep os 500 s1 = (r2, s2)"
      by (cases "sleep os 500 s1")
    have o2: "ordinary r2"
      using sleep_ordinary [OF "1.prems", of 500 s1] sl by simp
    show ?thesis
    proof (cases r1)
      case (Inl e)
      then show ?thesis
        using True c o1 by (simp add: wait_for_exit.simps)
    next
      case (Inr still)
      show ?thesis
      proof (cases "still = []")
        case True
        then show ?thesis
          using \<open>now s - start_time < timeout * 1000\<close> c Inr
          by (simp add: wait_for_exit.simps)
      next
        case False
        show ?thesis
        proof (cases r2)
          case (Inl e)
          then show ?thesis
            using True c \<open>r1 = Inr still\<close> False sl o2 by (simp add: wait_for_exit.simps)
        next
          case (Inr u)
          have "ordinary (fst (wait_for_exit os start_time timeout tp (Some still) s2))"
            using "1.IH" [OF True c [symmetric] \<open>r1 = Inr still\<close> False sl [symmetric] Inr "1.prems"] .
          then show ?thesis
            using True c \<open>r1 = Inr still\<close> False sl Inr by (simp add: wait_for_exit.simps)
        qed
      qed
    qed
  qed
qed

lemma force_kill_phase_ordinary:
  assumes "no_interrupt os"
  shows "ordinary (fst (force_kill_phase os force_kill sr s))"
proof (cases sr)
  case None
  then show ?thesis by (simp add: force_kill_phase_def)
next
  case (Some still)
  let ?s1 = "info ''Sending force kill signal (SIGKILL)...''
               (warning ''{len(still_running)} process(es) still running: {still_running_names}'' s)"
  obtain r2 s2 where k: "kill_all os still ?s1 = (r2, s2)"
    by (cases "kill_all os still ?s1")
  have o2: "ordinary r2"
    using kill_all_ordinary [OF assms, of still ?s1] k by simp
  obtain r3 s3 where sl: "sleep os 1000 s2 = (r3, s3)"
    by (cases "sleep os 1000 s2")
  have o3: "ordinary r3"
    using sleep_ordinary [OF assms, of 1000 s2] sl by simp
  obtain r4 s4 where f: "collect_running os still [] s3 = (r4, s4)"
    by (cases "collect_running os still [] s3")
  have o4: "ordinary r4"
    using collect_running_ordinary [OF assms, of still "[]" s3] f by simp
  show ?thesis
    using Some k sl f o2 o3 o4
    by (cases r2; cases r3; cases r4) (auto simp: force_kill_phase_def Let_def)
qed

lemma polling_ordinary:
  assumes "no_interrupt os"
  shows "ordinary (fst (polling os timeout s))"
proof -
  obtain r s3 where p: "polling os timeout s = (r, s3)"
    by (cases "polling os timeout s")
  from p have "ordinary r"
  proof (cases rule: polling_cases)
    case (raised e)
    then show ?thesis
      using scan_ordinary [OF assms, of s] by simp
  next
    case (none s1)
    then show ?thesis by simp
  next
    case (interrupted tp s1 e)
    then show ?thesis
      using request_termination_ordinary [OF assms, of tp s1] by simp
  next
    case (some tp s1 s2)
    then show ?thesis
      using wait_for_exit_ordinary [OF assms, of "now s2" timeout tp None s2] by simp
  qed
  then show ?thesis
    using p by simp
qed

lemma close_body_ordinary:
  assumes "no_interrupt os"
  shows "ordinary (fst (close_body os timeout force_kill s))"
  using polling_ordinary [OF assms, of timeout s] force_kill_phase_ordinary [OF assms]
  by (auto simp: close_body_def split: prod.splits sum.splits loop_exit.splits)

lemma send_terminate_raises:
  "send_terminate os ps s = (Inl e, s') \<Longrightarrow> \<not> is_Exception e"
proof (induction ps arbitrary: s)
  case Nil
  then show ?case by simp
next
  case (Cons p ps)
  obtain r1 s1 where c: "is_running os p s = (r1, s1)"
    by (cases "is_running os p s")
  obtain r2 s2 where k: "terminate os p s1 = (r2, s2)"
    by (cases "terminate os p s1")
  show ?case
    using Cons.prems c k Cons.IH [of s1] Cons.IH [of s2]
    by (cases r1; cases r2) (auto split: if_splits)
qed

lemma request_termination_raises:
  "request_termination os tp s = (Inl e, s') \<Longrightarrow> \<not> is_Exception e"
  by (auto simp: request_termination_def split: prod.splits sum.splits
        dest: send_terminate_raises)

subsection \<open>Answers that stay\<close>

text \<open>
  \<open>permanent tr\<close>: in the trace, no handle answers that it is running after it has
  answered that it is not. A handle of \<open>psutil\<close> behaves so: a process that is gone
  stays gone, and the handle does not take a new process with the same pid for its
  own.
\<close>

fun permanent :: "event list \<Rightarrow> bool" where
  "permanent [] = True"
| "permanent (EvIsRunning p r # tr) =
     ((r = Inr False \<longrightarrow> EvIsRunning p (Inr True) \<notin> set tr) \<and> permanent tr)"
| "permanent (e # tr) = permanent tr"

lemma permanent_append:
  "permanent (a @ b) \<Longrightarrow> EvIsRunning p (Inr False) \<in> set a \<Longrightarrow>
     EvIsRunning p (Inr True) \<notin> set b"
proof (induction a)
  case Nil
  then show ?case by simp
next
  case (Cons e a)
  then show ?case
    by (cases e) auto
qed

subsection \<open>The trace only grows\<close>

lemma collect_running_extends:
  "collect_running os ps acc s = (r, s') \<Longrightarrow> \<exists>evs. trace s' = trace s @ evs"
proof (induction ps arbitrary: acc s)
  case Nil
  then show ?case by simp
next
  case (Cons p ps)
  obtain r1 s1 where c: "is_running os p s = (r1, s1)"
    by (cases "is_running os p s")
  have t1: "trace s1 = trace s @ [EvIsRunning p r1]"
    using c by (rule trace_is_running)
  consider (stop) "s' = s1" | (go_on) acc' where "collect_running os ps acc' s1 = (r, s')"
    using Cons.prems c by (cases r1) (auto split: if_splits)
  then show ?case
  proof cases
    case stop
    then show ?thesis using t1 by simp
  next
    case go_on
    then obtain evs where "trace s' = trace s1 @ evs"
      using Cons.IH by blast
    then have "trace s' = trace s @ (EvIsRunning p r1 # evs)"
      using t1 by simp
    then show ?thesis by blast
  qed
qed

lemma force_kill_phase_extends:
  assumes "force_kill_phase os True (Some still) s = (r, s')" and "still \<noteq> []"
  shows "\<exists>rest. trace s' = trace (snd (kill_all os still (before_kill s))) @ rest"
proof -
  obtain r2 s2 where k: "kill_all os still (before_kill s) = (r2, s2)"
    by (cases "kill_all os still (before_kill s)")
  obtain r3 s3 where sl: "sleep os 1000 s2 = (r3, s3)"
    by (cases "sleep os 1000 s2")
  have t3: "trace s3 = trace s2 @ [EvSleep 1000]"
    using sl by (rule trace_sleep)
  obtain r4 s4 where f: "collect_running os still [] s3 = (r4, s4)"
    by (cases "collect_running os still [] s3")
  obtain evs where t4: "trace s4 = trace s3 @ evs"
    using collect_running_extends [OF f] by blast
  have "\<exists>rest. trace s' = trace s2 @ rest"
    using assms k sl f t3 t4
    by (cases r2; cases r3; cases r4)
       (auto simp: force_kill_phase_def before_kill_def Let_def split: if_splits)
  then show ?thesis
    using k by simp
qed

lemma close_antigravity_extends:
  "close_body os timeout force_kill (announce os s) = (r, s1) \<Longrightarrow>
     \<exists>rest. trace (snd (close_antigravity os timeout force_kill s)) = trace s1 @ rest"
  by (cases r) (auto simp: close_antigravity_def except_Exception_def)

subsection \<open>Where the kills of a call come from\<close>

lemma kills_of_call:
  "\<exists>ks. killed (trace (snd (close_antigravity os timeout force_kill s))) = killed (trace s) @ ks
     \<and> (\<forall>p \<in> set ks.
           \<exists>tp s1 s2 still sa sb s3 obs mid rest.
              scan os (announce os s) = (Inr tp, s1)
            \<and> request_termination os tp s1 = (Inr (), s2)
            \<and> polling os timeout (announce os s) = (Inr (LoopEnd (Some still)), s3)
            \<and> p \<in> set still
            \<and> now sa - now s2 < timeout * 1000
            \<and> collect_running os tp [] sa = (Inr still, sb)
            \<and> sleep os 500 sb = (Inr (), s3)
            \<and> \<not> now s3 - now s2 < timeout * 1000
            \<and> trace sb = trace sa @ obs
            \<and> EvIsRunning p (Inr True) \<in> set obs
            \<and> trace (snd (close_antigravity os timeout force_kill s))
                = trace s3 @ mid @ EvIsRunning p (Inr True) # EvKill p # rest)"
proof -
  let ?s0 = "announce os s"
  let ?final = "snd (close_antigravity os timeout force_kill s)"
  obtain r3 s3 where pl: "polling os timeout ?s0 = (r3, s3)"
    by (cases "polling os timeout ?s0")
  have k3: "killed (trace s3) = killed (trace s)"
    using polling_kills [OF pl] announce_quiet [of os s] by simp
  obtain r s' where b: "close_body os timeout force_kill ?s0 = (r, s')"
    by (cases "close_body os timeout force_kill ?s0")
  have kc: "killed (trace ?final) = killed (trace s')"
    using close_antigravity_signals_of_body [OF b] by simp
  obtain rest2 where fin: "trace ?final = trace s' @ rest2"
    using close_antigravity_extends [OF b] by blast
  show ?thesis
  proof (cases "killed (trace s') = killed (trace s3)")
    case True
    then have "killed (trace ?final) = killed (trace s) @ []"
      using kc k3 by simp
    then show ?thesis
      by (metis empty_iff list.set(1))
  next
    case False
    then have ne: "s' \<noteq> s3" by auto
    obtain sr where le: "r3 = Inr (LoopEnd sr)"
      using b pl ne by (cases r3) (auto simp: close_body_def split: loop_exit.splits)
    have f: "force_kill_phase os force_kill sr s3 = (r, s')"
      using b pl le by (simp add: close_body_def)
    obtain still where st: "sr = Some still"
      using f False by (cases sr) (auto simp: force_kill_phase_def)
    have fk: "force_kill" "still \<noteq> []"
      and ka: "killed (trace s') = killed (trace (snd (kill_all os still (before_kill s3))))"
      using force_kill_phase_kills [of os force_kill still s3 r s'] f st False by simp_all
    obtain evs where evs:
      "trace (snd (kill_all os still (before_kill s3))) = trace (before_kill s3) @ evs"
      "\<forall>q \<in> set (killed evs). \<exists>pre post. evs = pre @ EvIsRunning q (Inr True) # EvKill q # post"
      using kill_all_guarded [of os still "before_kill s3"
          "fst (kill_all os still (before_kill s3))" "snd (kill_all os still (before_kill s3))"]
      by auto
    have ks: "killed (trace ?final) = killed (trace s) @ killed evs"
      using kc ka evs(1) k3 by (simp add: before_kill_def)
    have sub: "set (killed evs) \<subseteq> set still"
    proof -
      obtain ks' where "killed (trace s') = killed (trace s3) @ ks'" "set ks' \<subseteq> set still"
        using force_kill_phase_signals [OF f] st by auto
      then show ?thesis
        using ka evs(1) by (simp add: before_kill_def)
    qed
    obtain rest1 where r1: "trace s' = trace (snd (kill_all os still (before_kill s3))) @ rest1"
      using force_kill_phase_extends [of os still s3 r s'] f st fk by auto
    from pl have "\<forall>p \<in> set (killed evs).
           \<exists>tp s1 s2 still sa sb s3' obs mid rest.
              scan os ?s0 = (Inr tp, s1)
            \<and> request_termination os tp s1 = (Inr (), s2)
            \<and> polling os timeout ?s0 = (Inr (LoopEnd (Some still)), s3')
            \<and> p \<in> set still
            \<and> now sa - now s2 < timeout * 1000
            \<and> collect_running os tp [] sa = (Inr still, sb)
            \<and> sleep os 500 sb = (Inr (), s3')
            \<and> \<not> now s3' - now s2 < timeout * 1000
            \<and> trace sb = trace sa @ obs
            \<and> EvIsRunning p (Inr True) \<in> set obs
            \<and> trace ?final = trace s3' @ mid @ EvIsRunning p (Inr True) # EvKill p # rest"
    proof (cases rule: polling_cases)
      case (raised e)
      then show ?thesis using le by simp
    next
      case (none s1)
      then show ?thesis using le by simp
    next
      case (interrupted tp s1 e)
      then show ?thesis using le by simp
    next
      case (some tp s1 s2)
      have w: "wait_for_exit os (now s2) timeout tp None s2 = (Inr (LoopEnd (Some still)), s3)"
        using some(4) le st by simp
      obtain sa sb where last: "now sa - now s2 < timeout * 1000"
        "collect_running os tp [] sa = (Inr still, sb)" "sleep os 500 sb = (Inr (), s3)"
        "\<not> now s3 - now s2 < timeout * 1000"
        using wait_for_exit_LoopEnd [OF w] by auto
      obtain obs where obs: "trace sb = trace sa @ obs"
        "\<forall>q \<in> set still. q \<in> set [] \<or> (q \<in> set tp \<and> EvIsRunning q (Inr True) \<in> set obs)"
        using collect_running_observed [OF last(2)] by blast
      show ?thesis
      proof
        fix p
        assume p: "p \<in> set (killed evs)"
        then have ps: "p \<in> set still"
          using sub by blast
        then have o: "EvIsRunning p (Inr True) \<in> set obs"
          using obs(2) by auto
        obtain pre post where g: "evs = pre @ EvIsRunning p (Inr True) # EvKill p # post"
          using evs(2) p by blast
        have "trace ?final = trace s3
                @ ([EvLog Warning ''{len(still_running)} process(es) still running: {still_running_names}'',
                    EvLog Info ''Sending force kill signal (SIGKILL)...''] @ pre)
                @ EvIsRunning p (Inr True) # EvKill p # (post @ rest1 @ rest2)"
          using fin r1 evs(1) g by (simp add: before_kill_def)
        then show "\<exists>tp s1 s2 still sa sb s3' obs mid rest.
              scan os ?s0 = (Inr tp, s1)
            \<and> request_termination os tp s1 = (Inr (), s2)
            \<and> polling os timeout ?s0 = (Inr (LoopEnd (Some still)), s3')
            \<and> p \<in> set still
            \<and> now sa - now s2 < timeout * 1000
            \<and> collect_running os tp [] sa = (Inr still, sb)
            \<and> sleep os 500 sb = (Inr (), s3')
            \<and> \<not> now s3' - now s2 < timeout * 1000
            \<and> trace sb = trace sa @ obs
            \<and> EvIsRunning p (Inr True) \<in> set obs
            \<and> trace ?final = trace s3' @ mid @ EvIsRunning p (Inr True) # EvKill p # rest"
          using some(1,3) pl le st ps last obs(1) o by blast
      qed
    qed
    then show ?thesis
      using ks by blast
  qed
qed

section \<open>The claims about shutdown\<close>

text \<open>
  C6 (idempotence of Close on an empty target set). When the scan that follows the
  platform's quit request (\<open>scan\<close>, lines 67--152) classifies no process as a
  target, \<open>close_antigravity\<close> answers true at once: the state it leaves is the
  state after the scan with the one message added, and neither \<open>terminate\<close> nor
  \<open>kill\<close> was invoked on any handle.
\<close>

theorem close_no_target:
  assumes "scan os (announce os s) = (Inr [], s1)"
  shows "close_antigravity os timeout force_kill s
           = (Inr True, info ''All Antigravity processes have been closed'' s1)
         \<and> killed (trace (snd (close_antigravity os timeout force_kill s))) = killed (trace s)
         \<and> terminated (trace (snd (close_antigravity os timeout force_kill s)))
             = terminated (trace s)"
proof -
  have c: "close_antigravity os timeout force_kill s
             = (Inr True, info ''All Antigravity processes have been closed'' s1)"
    using assms
    by (simp add: close_antigravity_def except_Exception_def close_body_def polling_def)
  have "killed (trace s1) = killed (trace s) \<and> terminated (trace s1) = terminated (trace s)"
    using scan_quiet [OF assms] announce_quiet [of os s] by simp
  then show ?thesis
    using c by simp
qed

theorem close_no_target_witness:
  "fst (close_antigravity (sim_os windows) 10 True (sim_start [p_self, p_editor])) = Inr True
   \<and> killed (trace (snd (close_antigravity (sim_os windows) 10 True
                            (sim_start [p_self, p_editor])))) = []
   \<and> terminated (trace (snd (close_antigravity (sim_os windows) 10 True
                            (sim_start [p_self, p_editor])))) = []"
proof -
  let ?s = "sim_start [p_self, p_editor]"
  let ?f = "scan (sim_os windows) (announce (sim_os windows) ?s)"
  have h: "?f = (Inr [], snd ?f)"
    by code_simp
  have z: "killed (trace ?s) = []" "terminated (trace ?s) = []"
    by (simp_all add: sim_start_def)
  note r = close_no_target [OF h, of 10 True]
  have "fst (close_antigravity (sim_os windows) 10 True ?s) = Inr True"
    using r [THEN conjunct1] by simp
  moreover have "killed (trace (snd (close_antigravity (sim_os windows) 10 True ?s))) = []"
    using r [THEN conjunct2, THEN conjunct1] z by simp
  moreover have "terminated (trace (snd (close_antigravity (sim_os windows) 10 True ?s))) = []"
    using r [THEN conjunct2, THEN conjunct2] z by simp
  ultimately show ?thesis by blast
qed

text \<open>
  C5 (forced-kill opt-out). When the wait ends by its timeout with handles that the
  last round found running, \<open>close_antigravity\<close> called with \<open>force_kill=False\<close>
  answers false after the warning and the error message, and \<open>kill\<close> was invoked on no
  handle during the call.
\<close>

theorem force_kill_opt_out:
  assumes "polling os timeout (announce os s) = (Inr (LoopEnd (Some still)), s3)"
      and "still \<noteq> []"
  shows "close_antigravity os timeout False s
           = (Inr False,
              error ''Some processes could not be closed, please close them manually and retry''
                (warning ''{len(still_running)} process(es) still running: {still_running_names}'' s3))
         \<and> killed (trace (snd (close_antigravity os timeout False s))) = killed (trace s)"
proof -
  have c: "close_antigravity os timeout False s
           = (Inr False,
              error ''Some processes could not be closed, please close them manually and retry''
                (warning ''{len(still_running)} process(es) still running: {still_running_names}'' s3))"
    using assms
    by (simp add: close_antigravity_def except_Exception_def close_body_def
          force_kill_phase_def Let_def)
  have "killed (trace s3) = killed (trace s)"
    using polling_kills [OF assms(1)] announce_quiet [of os s] by simp
  then show ?thesis
    using c by simp
qed

theorem force_kill_opt_out_witness:
  "fst (close_antigravity (sim_os windows) 2 False (sim_start [p_app, p_helper, p_self]))
     = Inr False
   \<and> killed (trace (snd (close_antigravity (sim_os windows) 2 False
                            (sim_start [p_app, p_helper, p_self])))) = []"
proof -
  let ?s = "sim_start [p_app, p_helper, p_self]"
  let ?p = "polling (sim_os windows) 2 (announce (sim_os windows) ?s)"
  have h: "?p = (Inr (LoopEnd (Some [p_helper])), snd ?p)"
    by code_simp
  have n: "[p_helper] \<noteq> []"
    by simp
  have z: "killed (trace ?s) = []"
    by (simp add: sim_start_def)
  note r = force_kill_opt_out [OF h n]
  have "fst (close_antigravity (sim_os windows) 2 False ?s) = Inr False"
    using r [THEN conjunct1] by simp
  moreover have "killed (trace (snd (close_antigravity (sim_os windows) 2 False ?s))) = []"
    using r [THEN conjunct2] z by simp
  ultimately show ?thesis by blast
qed

text \<open>
  C9 (a timeout that is not positive). With \<open>timeout \<le> 0\<close> and at least one target, the
  condition of the \<open>while\<close> loop is false when it is first tested: the loop ends in the
  state in which it began, the state \<open>s2\<close> that the cooperative signalling left, with
  \<open>still_running\<close> unbound. Reading the variable raises \<open>NameError\<close>, the handler
  turns it into the answer false, and \<open>kill\<close> is invoked on no handle, whatever
  \<open>force_kill\<close> is. (The signalling loop swallows every \<open>Exception\<close>; the theorem
  also says what happens when something else escapes from it: that exception leaves
  the call, and still no \<open>kill\<close> is invoked.)
\<close>

theorem nonpositive_timeout:
  assumes "timeout \<le> 0"
      and "scan os (announce os s) = (Inr tp, s1)"
      and "tp \<noteq> []"
      and "request_termination os tp s1 = (r2, s2)"
  shows "(r2 = Inr () \<longrightarrow>
            polling os timeout (announce os s) = (Inr (LoopEnd None), s2)
          \<and> close_body os timeout force_kill (announce os s) = (Inl NameError, s2)
          \<and> close_antigravity os timeout force_kill s
              = (Inr False, error ''Error while closing Antigravity processes: {str(e)}'' s2))
         \<and> (\<forall>e. r2 = Inl e \<longrightarrow>
               \<not> is_Exception e \<and> close_antigravity os timeout force_kill s = (Inl e, s2))
         \<and> killed (trace (snd (close_antigravity os timeout force_kill s))) = killed (trace s)"
proof -
  have first: "polling os timeout (announce os s) = (Inr (LoopEnd None), s2)
          \<and> close_body os timeout force_kill (announce os s) = (Inl NameError, s2)
          \<and> close_antigravity os timeout force_kill s
              = (Inr False, error ''Error while closing Antigravity processes: {str(e)}'' s2)"
    if ok: "r2 = Inr ()"
  proof -
    have w: "wait_for_exit os (now s2) timeout tp None s2 = (Inr (LoopEnd None), s2)"
      using assms(1) by (simp add: wait_for_exit.simps)
    have p: "polling os timeout (announce os s) = (Inr (LoopEnd None), s2)"
      using assms(2,3,4) ok w by (simp add: polling_def Let_def)
    have b: "close_body os timeout force_kill (announce os s) = (Inl NameError, s2)"
      using p by (simp add: close_body_def force_kill_phase_def)
    have "close_antigravity os timeout force_kill s
           = (Inr False, error ''Error while closing Antigravity processes: {str(e)}'' s2)"
      using b by (simp add: close_antigravity_def except_Exception_def)
    then show ?thesis
      using p b by simp
  qed
  have second: "\<not> is_Exception e \<and> close_antigravity os timeout force_kill s = (Inl e, s2)"
    if bad: "r2 = Inl e" for e
  proof -
    have n: "\<not> is_Exception e"
      using assms(4) bad request_termination_raises [of os tp s1 e s2] by simp
    have "close_body os timeout force_kill (announce os s) = (Inl e, s2)"
      using assms(2,3,4) bad by (simp add: close_body_def polling_def)
    then show ?thesis
      using n by (simp add: close_antigravity_def except_Exception_def)
  qed
  obtain r3 s3 where p: "polling os timeout (announce os s) = (r3, s3)"
    by (cases "polling os timeout (announce os s)")
  have k3: "killed (trace s3) = killed (trace s)"
    using polling_kills [OF p] announce_quiet [of os s] by simp
  have "killed (trace (snd (close_antigravity os timeout force_kill s))) = killed (trace s)"
  proof (cases r2)
    case (Inl e)
    then show ?thesis
      using second [OF Inl] p k3 assms(2,3,4) by (simp add: polling_def)
  next
    case (Inr u)
    then show ?thesis
      using first p k3 by simp
  qed
  then show ?thesis
    using first second by blast
qed

theorem nonpositive_timeout_witness:
  "(0::int) \<le> 0
   \<and> fst (close_antigravity (sim_os windows) 0 True (sim_start [p_app, p_helper, p_self]))
       = Inr False
   \<and> fst (close_body (sim_os windows) 0 True
            (announce (sim_os windows) (sim_start [p_app, p_helper, p_self])))
       = Inl NameError
   \<and> killed (trace (snd (close_antigravity (sim_os windows) 0 True
                            (sim_start [p_app, p_helper, p_self])))) = []"
proof -
  let ?s = "sim_start [p_app, p_helper, p_self]"
  let ?f = "scan (sim_os windows) (announce (sim_os windows) ?s)"
  let ?q = "request_termination (sim_os windows) [p_app, p_helper] (snd ?f)"
  have t: "(0::int) \<le> 0"
    by simp
  have h: "?f = (Inr [p_app, p_helper], snd ?f)"
    by code_simp
  have n: "[p_app, p_helper] \<noteq> []"
    by simp
  have q: "?q = (Inr (), snd ?q)"
    by code_simp
  have z: "killed (trace ?s) = []"
    by (simp add: sim_start_def)
  note r = nonpositive_timeout [OF t h n q, of True]
  have "fst (close_antigravity (sim_os windows) 0 True ?s) = Inr False"
    using r [THEN conjunct1] by simp
  moreover have "fst (close_body (sim_os windows) 0 True (announce (sim_os windows) ?s))
                   = Inl NameError"
    using r [THEN conjunct1] by simp
  moreover have "killed (trace (snd (close_antigravity (sim_os windows) 0 True ?s))) = []"
    using r [THEN conjunct2, THEN conjunct2] z by simp
  ultimately show ?thesis
    using t by blast
qed

text \<open>
  C2 (self-exclusion). A handle whose pid is the controller's own, or whose executable
  path is not empty and lies under the controller's directory, is in the target list
  of no scan, whatever its name and path are; and in a whole call of
  \<open>close_antigravity\<close> neither \<open>terminate\<close> nor \<open>kill\<close> is invoked on it. The
  directory is the one the code computes from \<open>sys.executable\<close>.
\<close>

theorem self_exclusion:
  assumes "pid p = os_getpid os
           \<or> (\<exists>d e. executable_dir os = Some d \<and> exe p = Some e \<and> e \<noteq> [] \<and> lies_under d e)"
  shows "p \<notin> set (fst (collect_targets os ps [] s))
         \<and> (\<exists>ts ks. terminated (trace (snd (close_antigravity os timeout force_kill s')))
                       = terminated (trace s') @ ts
                    \<and> killed (trace (snd (close_antigravity os timeout force_kill s')))
                       = killed (trace s') @ ks
                    \<and> p \<notin> set ts \<and> p \<notin> set ks)"
proof -
  have n: "\<not> shutdown_eligible os p"
    using assms by (rule self_excluded_not_eligible)
  have "p \<notin> set (fst (collect_targets os ps [] s))"
    using n by (simp add: collect_targets_filter)
  moreover obtain ts ks where
    "terminated (trace (snd (close_antigravity os timeout force_kill s'))) = terminated (trace s') @ ts"
    "killed (trace (snd (close_antigravity os timeout force_kill s'))) = killed (trace s') @ ks"
    "\<forall>p \<in> set ts \<union> set ks. shutdown_eligible os p"
    using close_antigravity_signals [of os timeout force_kill s'] by blast
  ultimately show ?thesis
    using n by blast
qed

theorem self_exclusion_witness:
  "lies_under ''C:/Program Files/Antigravity'' ''C:/Program Files/Antigravity/Antigravity.exe''
   \<and> p_app \<notin> set (fst (collect_targets (sim_os colocated) [p_app, p_helper, p_self] []
                          (sim_start [p_app, p_helper, p_self])))
   \<and> p_app \<notin> set (terminated (trace (snd (close_antigravity (sim_os colocated) 2 True
                          (sim_start [p_app, p_helper, p_self])))))
   \<and> p_app \<notin> set (killed (trace (snd (close_antigravity (sim_os colocated) 2 True
                          (sim_start [p_app, p_helper, p_self])))))"
proof -
  let ?ps = "[p_app, p_helper, p_self]"
  let ?s = "sim_start ?ps"
  have l: "lies_under ''C:/Program Files/Antigravity''
             ''C:/Program Files/Antigravity/Antigravity.exe''"
    by (simp add: lies_under_def)
  have h: "pid p_app = os_getpid (sim_os colocated)
           \<or> (\<exists>d e. executable_dir (sim_os colocated) = Some d \<and> exe p_app = Some e
                   \<and> e \<noteq> [] \<and> lies_under d e)"
    using l by (simp add: sim_os_def colocated_def p_app_def)
  have z: "killed (trace ?s) = []" "terminated (trace ?s) = []"
    by (simp_all add: sim_start_def)
  note r = self_exclusion [OF h, of ?ps ?s 2 True ?s]
  have "p_app \<notin> set (fst (collect_targets (sim_os colocated) ?ps [] ?s))"
    using r [THEN conjunct1] .
  moreover have "p_app \<notin> set (terminated (trace (snd (close_antigravity (sim_os colocated) 2 True ?s))))
    \<and> p_app \<notin> set (killed (trace (snd (close_antigravity (sim_os colocated) 2 True ?s))))"
    using r [THEN conjunct2] z by auto
  ultimately show ?thesis
    using l by blast
qed

text \<open>
  C3 (the rule for Windows), as amended. On Windows, every enumerated process whose
  lower-cased name is \<open>antigravity.exe\<close> or \<open>antigravity\<close>, and which the self-exclusion
  does not skip (its pid is not the controller's and it is not in the controller's
  directory), is in the target list; and every process whose name is not one of the
  two, whose path contains \<open>antigravity\<close> and whose lower-cased name contains
  \<open>manager\<close> is not.
\<close>

theorem windows_classification:
  assumes "platform_system os = ''Windows''"
  shows "(p \<in> set ps \<and> process_name_lower p \<in> {''antigravity.exe'', ''antigravity''}
            \<and> pid p \<noteq> os_getpid os \<and> \<not> in_current_dir os p
          \<longrightarrow> p \<in> set (fst (collect_targets os ps [] s)))
         \<and> (process_name_lower p \<notin> {''antigravity.exe'', ''antigravity''}
            \<and> str_in ''antigravity'' (exe_path p)
            \<and> str_in ''manager'' (process_name_lower p)
          \<longrightarrow> p \<notin> set (fst (collect_targets os ps [] s)))"
proof -
  have "shutdown_eligible os p"
    if "process_name_lower p \<in> {''antigravity.exe'', ''antigravity''}"
       "pid p \<noteq> os_getpid os" "\<not> in_current_dir os p"
    using that assms by (auto simp: shutdown_eligible_def is_antigravity_close_def Let_def)
  moreover have "\<not> shutdown_eligible os p" if "str_in ''manager'' (process_name_lower p)"
    using that assms manager_not_close_target [of p] by (simp add: shutdown_eligible_def)
  ultimately show ?thesis
    by (auto simp: collect_targets_filter)
qed

theorem windows_classification_witness:
  "platform_system (sim_os windows) = ''Windows''
   \<and> process_name_lower p_app = ''antigravity.exe''
   \<and> p_app \<in> set (fst (collect_targets (sim_os windows) [p_manager, p_app] []
                        (sim_start [p_manager, p_app])))
   \<and> str_in ''antigravity'' (exe_path p_manager)
   \<and> str_in ''manager'' (process_name_lower p_manager)
   \<and> p_manager \<notin> set (fst (collect_targets (sim_os windows) [p_manager, p_app] []
                        (sim_start [p_manager, p_app])))"
proof -
  let ?ps = "[p_manager, p_app]"
  have w: "platform_system (sim_os windows) = ''Windows''"
    by (simp add: sim_os_def windows_def)
  have a: "p_app \<in> set ?ps" "process_name_lower p_app = ''antigravity.exe''"
    "pid p_app \<noteq> os_getpid (sim_os windows)" "\<not> in_current_dir (sim_os windows) p_app"
    by code_simp+
  have m: "process_name_lower p_manager \<notin> {''antigravity.exe'', ''antigravity''}"
    "str_in ''antigravity'' (exe_path p_manager)"
    "str_in ''manager'' (process_name_lower p_manager)"
    by code_simp+
  have "p_app \<in> set (fst (collect_targets (sim_os windows) ?ps [] (sim_start ?ps)))"
    using windows_classification [OF w, of p_app ?ps "sim_start ?ps"] a by simp
  moreover have "p_manager \<notin> set (fst (collect_targets (sim_os windows) ?ps [] (sim_start ?ps)))"
    using windows_classification [OF w, of p_manager ?ps "sim_start ?ps"] m by blast
  ultimately show ?thesis
    using w a m by blast
qed

text \<open>
  The claim without the amendment fails: with the controller installed in the
  directory of the application, the process named \<open>antigravity.exe\<close> is enumerated
  and is skipped by the self-exclusion, so the target list is empty.
\<close>

theorem exact_name_excluded_counterexample:
  "platform_system (sim_os colocated) = ''Windows''
   \<and> process_name_lower p_app = ''antigravity.exe''
   \<and> fst (process_iter (sim_os colocated)
            (snd (graceful_exit (sim_os colocated)
                    (announce (sim_os colocated) (sim_start [p_app, p_self])))))
       = Inr [p_app, p_self]
   \<and> fst (scan (sim_os colocated) (announce (sim_os colocated) (sim_start [p_app, p_self])))
       = Inr []"
  by code_simp

text \<open>
  C10 (detection and shutdown disagree). On Windows, when the only process that the
  detection rule matches has \<open>manager\<close> in its lower-cased name and \<open>antigravity\<close> in its
  path, \<open>is_process_running\<close> answers true, while the scan of \<open>close_antigravity\<close> on
  the same process table, enumerated after the platform's quit request, finds no
  target: the call answers true at once and invokes neither \<open>terminate\<close> nor
  \<open>kill\<close>.
\<close>

theorem detection_differs_from_shutdown:
  assumes "platform_system os = ''Windows''"
      and "process_iter os s = (Inr ps, s1)"
      and "graceful_exit os (announce os s') = (Inr (), s0)"
      and "process_iter os s0 = (Inr ps, s2)"
      and "m \<in> set ps"
      and "str_in ''manager'' (process_name_lower m)"
      and "str_in ''antigravity'' (exe_path m)"
      and "\<forall>q \<in> set ps. q \<noteq> m \<longrightarrow> \<not> is_antigravity ''Windows'' q"
  shows "is_process_running os s = (Inr True, s1)
         \<and> scan os (announce os s') = (Inr [], s2)
         \<and> close_antigravity os timeout force_kill s'
             = (Inr True, info ''All Antigravity processes have been closed'' s2)
         \<and> killed (trace (snd (close_antigravity os timeout force_kill s'))) = killed (trace s')
         \<and> terminated (trace (snd (close_antigravity os timeout force_kill s')))
             = terminated (trace s')"
proof -
  have "is_antigravity ''Windows'' m"
    using assms(7) by (simp add: is_antigravity_def)
  then have "any_antigravity (platform_system os) ps"
    using assms(1,5) by (auto simp: any_antigravity_iff)
  then have d: "is_process_running os s = (Inr True, s1)"
    using assms(2) by (simp add: is_process_running_def)
  have "\<not> shutdown_eligible os q" if "q \<in> set ps" for q
  proof (cases "q = m")
    case True
    then show ?thesis
      using assms(1,6) manager_not_close_target [of m] by (simp add: shutdown_eligible_def)
  next
    case False
    then have "\<not> is_antigravity ''Windows'' q"
      using assms(8) that by blast
    then show ?thesis
      using assms(1) close_rule_stricter [of "''Windows''" q] by (auto simp: shutdown_eligible_def)
  qed
  then have e: "filter (shutdown_eligible os) ps = []"
    by (simp add: filter_empty_conv)
  have c: "collect_targets os ps [] s2 = ([], s2)"
    using e
  proof (induction ps)
    case Nil
    then show ?case by simp
  next
    case (Cons q qs)
    then show ?case
      by (auto simp: shutdown_eligible_def split: if_splits)
  qed
  have f: "scan os (announce os s') = (Inr [], s2)"
    using assms(3,4) c by (simp add: scan_def find_targets_def)
  show ?thesis
    using d f close_antigravity_empty(1) [OF f, of timeout force_kill]
      close_antigravity_empty(2,3) [OF f] by simp
qed

theorem detection_differs_from_shutdown_witness:
  "platform_system (sim_os windows) = ''Windows''
   \<and> str_in ''manager'' (process_name_lower p_self)
   \<and> str_in ''antigravity'' (exe_path p_self)
   \<and> fst (is_process_running (sim_os windows) (sim_start [p_editor, p_self])) = Inr True
   \<and> fst (scan (sim_os windows) (announce (sim_os windows) (sim_start [p_editor, p_self])))
       = Inr []
   \<and> fst (close_antigravity (sim_os windows) 10 True (sim_start [p_editor, p_self])) = Inr True
   \<and> killed (trace (snd (close_antigravity (sim_os windows) 10 True
                            (sim_start [p_editor, p_self])))) = []
   \<and> terminated (trace (snd (close_antigravity (sim_os windows) 10 True
                            (sim_start [p_editor, p_self])))) = []"
proof -
  let ?ps = "[p_editor, p_self]"
  let ?s = "sim_start ?ps"
  let ?i1 = "process_iter (sim_os windows) ?s"
  let ?g = "graceful_exit (sim_os windows) (announce (sim_os windows) ?s)"
  let ?i2 = "process_iter (sim_os windows) (snd ?g)"
  have w: "platform_system (sim_os windows) = ''Windows''"
    by (simp add: sim_os_def windows_def)
  have h1: "?i1 = (Inr ?ps, snd ?i1)"
    by code_simp
  have g: "?g = (Inr (), snd ?g)"
    by code_simp
  have h2: "?i2 = (Inr ?ps, snd ?i2)"
    by code_simp
  have m: "p_self \<in> set ?ps" "str_in ''manager'' (process_name_lower p_self)"
    "str_in ''antigravity'' (exe_path p_self)"
    by code_simp+
  have o: "\<forall>q \<in> set ?ps. q \<noteq> p_self \<longrightarrow> \<not> is_antigravity ''Windows'' q"
    by code_simp
  have z: "killed (trace ?s) = []" "terminated (trace ?s) = []"
    by (simp_all add: sim_start_def)
  note r = detection_differs_from_shutdown [OF w h1 g h2 m o, of 10 True]
  have "fst (is_process_running (sim_os windows) ?s) = Inr True"
    using r [THEN conjunct1] by simp
  moreover have "fst (scan (sim_os windows) (announce (sim_os windows) ?s)) = Inr []"
    using r [THEN conjunct2, THEN conjunct1] by simp
  moreover have "fst (close_antigravity (sim_os windows) 10 True ?s) = Inr True"
    using r [THEN conjunct2, THEN conjunct2, THEN conjunct1] by simp
  moreover have "killed (trace (snd (close_antigravity (sim_os windows) 10 True ?s))) = []"
    using r [THEN conjunct2, THEN conjunct2, THEN conjunct2, THEN conjunct1] z by simp
  moreover have "terminated (trace (snd (close_antigravity (sim_os windows) 10 True ?s))) = []"
    using r [THEN conjunct2, THEN conjunct2, THEN conjunct2, THEN conjunct2] z by simp
  ultimately show ?thesis
    using w m by blast
qed

text \<open>
  C8 (the end-to-end scenario). The process table holds pid 100, named
  \<open>antigravity.exe\<close>, which exits one second after the cooperative signal (the
  latest moment that the scenario allows); pid 101,
  named \<open>antigravity\<close> with a matching path, which ignores that signal; and pid 200,
  the controller. The platform is Windows and the platform's quit request fails.
  \<open>close_antigravity\<close> with a timeout of two seconds and \<open>force_kill=True\<close> leaves pid
  200 out of the targets, sends the cooperative signal to pids 100 and 101, sees pid
  100 gone while it polls, ends the wait with pid 101 alone, invokes \<open>kill\<close> on pid 101
  and on nobody else, and answers true.
\<close>

theorem end_to_end_scenario:
  "pid p_app = 100 \<and> pid p_helper = 101 \<and> pid p_self = 200
   \<and> os_getpid (sim_os windows) = 200
   \<and> fst (scan (sim_os windows)
            (announce (sim_os windows) (sim_start [p_app, p_helper, p_self])))
       = Inr [p_app, p_helper]
   \<and> fst (polling (sim_os windows) 2
            (announce (sim_os windows) (sim_start [p_app, p_helper, p_self])))
       = Inr (LoopEnd (Some [p_helper]))
   \<and> EvIsRunning p_app (Inr False)
       \<in> set (trace (snd (polling (sim_os windows) 2
                  (announce (sim_os windows) (sim_start [p_app, p_helper, p_self])))))
   \<and> terminated (trace (snd (close_antigravity (sim_os windows) 2 True
                     (sim_start [p_app, p_helper, p_self])))) = [p_app, p_helper]
   \<and> killed (trace (snd (close_antigravity (sim_os windows) 2 True
                     (sim_start [p_app, p_helper, p_self])))) = [p_helper]
   \<and> fst (close_antigravity (sim_os windows) 2 True (sim_start [p_app, p_helper, p_self]))
       = Inr True"
  by code_simp

text \<open>
  C7 (totality of Close), as amended. \<open>close_antigravity\<close> turns every \<open>Exception\<close>
  that its body raises into the answer false, after the error message of the handler,
  and passes on the answer of a body that returns. An exception that is not an
  \<open>Exception\<close> (\<open>KeyboardInterrupt\<close>, \<open>SystemExit\<close>) is not caught: it leaves the call.
  The body raises such an exception only when a primitive does: with primitives that
  raise nothing but \<open>Exception\<close>s the call always returns a boolean, for every timeout
  and every \<open>force_kill\<close>. (That the \<open>while\<close> loop ends is the termination proof of
  \<open>wait_for_exit\<close>. Lines 59--64 before the \<open>try\<close> and line 227 in the handler are
  covered by no handler; they call only \<open>platform.system\<close> and the helpers \<open>info\<close>,
  \<open>warning\<close> and \<open>error\<close>, which return, as said with their definitions.)
\<close>

theorem close_total:
  "(\<forall>e s1. close_body os timeout force_kill (announce os s) = (Inl e, s1) \<and> is_Exception e \<longrightarrow>
       close_antigravity os timeout force_kill s
         = (Inr False, error ''Error while closing Antigravity processes: {str(e)}'' s1))
   \<and> (\<forall>e s1. close_body os timeout force_kill (announce os s) = (Inl e, s1)
          \<and> \<not> is_Exception e \<longrightarrow>
       close_antigravity os timeout force_kill s = (Inl e, s1))
   \<and> (\<forall>b s1. close_body os timeout force_kill (announce os s) = (Inr b, s1) \<longrightarrow>
       close_antigravity os timeout force_kill s = (Inr b, s1))
   \<and> (no_interrupt os \<longrightarrow> (\<exists>b. fst (close_antigravity os timeout force_kill s) = Inr b))"
proof -
  have "\<exists>b. fst (close_antigravity os timeout force_kill s) = Inr b" if "no_interrupt os"
  proof -
    obtain r s1 where b: "close_body os timeout force_kill (announce os s) = (r, s1)"
      by (cases "close_body os timeout force_kill (announce os s)")
    have "ordinary r"
      using close_body_ordinary [OF that, of timeout force_kill "announce os s"] b by simp
    then show ?thesis
      using b by (cases r) (auto simp: close_antigravity_def except_Exception_def)
  qed
  then show ?thesis
    by (simp add: close_antigravity_def except_Exception_def)
qed

theorem close_total_witness:
  "no_interrupt no_enumeration
   \<and> fst (close_antigravity no_enumeration 10 True (sim_start [p_app])) = Inr False
   \<and> last (trace (snd (close_antigravity no_enumeration 10 True (sim_start [p_app]))))
       = EvLog Error ''Error while closing Antigravity processes: {str(e)}''"
proof -
  let ?s = "sim_start [p_app]"
  let ?b = "close_body no_enumeration 10 True (announce no_enumeration ?s)"
  have h: "?b = (Inl OtherException, snd ?b)"
    by code_simp
  have e: "is_Exception OtherException"
    by simp
  have n: "no_interrupt no_enumeration"
    by (simp add: no_interrupt_def no_enumeration_def sim_os_def windows_def)
  note r = close_total [of no_enumeration 10 True ?s]
  have "close_antigravity no_enumeration 10 True ?s
          = (Inr False, error ''Error while closing Antigravity processes: {str(e)}'' (snd ?b))"
    using r [THEN conjunct1] h e by blast
  then show ?thesis
    using n by simp
qed

text \<open>
  The claim without the amendment fails: on Windows, when the user interrupts the
  quit request of the platform (\<open>KeyboardInterrupt\<close> out of \<open>subprocess.run\<close>), neither
  the inner nor the outer \<open>except Exception\<close> catches it and it leaves
  \<open>close_antigravity\<close>.
\<close>

theorem close_total_counterexample:
  "fst (close_antigravity (sim_os interrupted) 10 True (sim_start [p_app, p_self]))
     = Inl KeyboardInterrupt"
  by code_simp

text \<open>
  C4 (phase ordering). If \<open>kill\<close> is invoked on a handle during a call of
  \<open>close_antigravity\<close>, then the wait was left by its timeout and not by a
  \<open>return\<close>, and the handle is in \<open>still_running\<close> as the last round of the wait bound
  it: a round that began within the timeout, in which the handle answered that it is
  running, and after whose sleep the timeout was over; and the \<open>kill\<close> comes after
  the end of the wait, directly after one more answer of the same handle that it is
  running. And a handle that answered during the wait, or before it, that it is not
  running is never killed in the call, provided the answers of handles are permanent.
\<close>

theorem phase_ordering:
  "(p \<in> set (killed (trace (snd (close_antigravity os timeout force_kill s))))
      \<and> p \<notin> set (killed (trace s)) \<longrightarrow>
      (\<exists>tp s1 s2 still sa sb s3 obs mid rest.
          scan os (announce os s) = (Inr tp, s1)
        \<and> request_termination os tp s1 = (Inr (), s2)
        \<and> polling os timeout (announce os s) = (Inr (LoopEnd (Some still)), s3)
        \<and> p \<in> set still
        \<and> now sa - now s2 < timeout * 1000
        \<and> collect_running os tp [] sa = (Inr still, sb)
        \<and> sleep os 500 sb = (Inr (), s3)
        \<and> \<not> now s3 - now s2 < timeout * 1000
        \<and> trace sb = trace sa @ obs
        \<and> EvIsRunning p (Inr True) \<in> set obs
        \<and> trace (snd (close_antigravity os timeout force_kill s))
            = trace s3 @ mid @ EvIsRunning p (Inr True) # EvKill p # rest))
   \<and> (permanent (trace (snd (close_antigravity os timeout force_kill s)))
      \<and> EvIsRunning p (Inr False) \<in> set (trace (snd (polling os timeout (announce os s))))
      \<longrightarrow>
      (\<exists>ks. killed (trace (snd (close_antigravity os timeout force_kill s)))
               = killed (trace s) @ ks
           \<and> p \<notin> set ks))"
proof -
  let ?final = "snd (close_antigravity os timeout force_kill s)"
  obtain ks where ks: "killed (trace ?final) = killed (trace s) @ ks"
    "\<forall>p \<in> set ks.
           \<exists>tp s1 s2 still sa sb s3 obs mid rest.
              scan os (announce os s) = (Inr tp, s1)
            \<and> request_termination os tp s1 = (Inr (), s2)
            \<and> polling os timeout (announce os s) = (Inr (LoopEnd (Some still)), s3)
            \<and> p \<in> set still
            \<and> now sa - now s2 < timeout * 1000
            \<and> collect_running os tp [] sa = (Inr still, sb)
            \<and> sleep os 500 sb = (Inr (), s3)
            \<and> \<not> now s3 - now s2 < timeout * 1000
            \<and> trace sb = trace sa @ obs
            \<and> EvIsRunning p (Inr True) \<in> set obs
            \<and> trace ?final = trace s3 @ mid @ EvIsRunning p (Inr True) # EvKill p # rest"
    using kills_of_call [of os timeout force_kill s] by blast
  have first: "\<exists>tp s1 s2 still sa sb s3 obs mid rest.
          scan os (announce os s) = (Inr tp, s1)
        \<and> request_termination os tp s1 = (Inr (), s2)
        \<and> polling os timeout (announce os s) = (Inr (LoopEnd (Some still)), s3)
        \<and> p \<in> set still
        \<and> now sa - now s2 < timeout * 1000
        \<and> collect_running os tp [] sa = (Inr still, sb)
        \<and> sleep os 500 sb = (Inr (), s3)
        \<and> \<not> now s3 - now s2 < timeout * 1000
        \<and> trace sb = trace sa @ obs
        \<and> EvIsRunning p (Inr True) \<in> set obs
        \<and> trace ?final = trace s3 @ mid @ EvIsRunning p (Inr True) # EvKill p # rest"
    if "p \<in> set (killed (trace ?final))" "p \<notin> set (killed (trace s))"
  proof -
    have "p \<in> set ks"
      using that ks(1) by auto
    then show ?thesis
      using ks(2) by blast
  qed
  have second: "p \<notin> set ks"
    if perm: "permanent (trace ?final)"
      and gone: "EvIsRunning p (Inr False) \<in> set (trace (snd (polling os timeout (announce os s))))"
  proof
    assume "p \<in> set ks"
    then obtain still s3 mid rest where
      pl: "polling os timeout (announce os s) = (Inr (LoopEnd (Some still)), s3)"
      and tr: "trace ?final = trace s3 @ mid @ EvIsRunning p (Inr True) # EvKill p # rest"
      using ks(2) by blast
    have "EvIsRunning p (Inr False) \<in> set (trace s3)"
      using gone pl by simp
    moreover have "permanent (trace s3 @ (mid @ EvIsRunning p (Inr True) # EvKill p # rest))"
      using perm tr by simp
    ultimately have "EvIsRunning p (Inr True) \<notin> set (mid @ EvIsRunning p (Inr True) # EvKill p # rest)"
      by (rule permanent_append [rotated])
    then show False by simp
  qed
  show ?thesis
    using first second ks(1) by blast
qed

theorem phase_ordering_witness:
  "p_helper \<in> set (killed (trace (snd (close_antigravity (sim_os windows) 2 True
                       (sim_start [p_app, p_helper, p_self])))))
   \<and> p_helper \<notin> set (killed (trace (sim_start [p_app, p_helper, p_self])))
   \<and> (\<exists>tp s1 s2 still sa sb s3 obs mid rest.
          scan (sim_os windows)
            (announce (sim_os windows) (sim_start [p_app, p_helper, p_self])) = (Inr tp, s1)
        \<and> request_termination (sim_os windows) tp s1 = (Inr (), s2)
        \<and> polling (sim_os windows) 2
             (announce (sim_os windows) (sim_start [p_app, p_helper, p_self]))
            = (Inr (LoopEnd (Some still)), s3)
        \<and> p_helper \<in> set still
        \<and> now sa - now s2 < 2 * 1000
        \<and> collect_running (sim_os windows) tp [] sa = (Inr still, sb)
        \<and> sleep (sim_os windows) 500 sb = (Inr (), s3)
        \<and> \<not> now s3 - now s2 < 2 * 1000
        \<and> trace sb = trace sa @ obs
        \<and> EvIsRunning p_helper (Inr True) \<in> set obs
        \<and> trace (snd (close_antigravity (sim_os windows) 2 True
                         (sim_start [p_app, p_helper, p_self])))
            = trace s3 @ mid @ EvIsRunning p_helper (Inr True) # EvKill p_helper # rest)
   \<and> permanent (trace (snd (close_antigravity (sim_os windows) 2 True
                               (sim_start [p_app, p_helper, p_self]))))
   \<and> EvIsRunning p_app (Inr False)
       \<in> set (trace (snd (polling (sim_os windows) 2
                  (announce (sim_os windows) (sim_start [p_app, p_helper, p_self])))))
   \<and> p_app \<notin> set (killed (trace (snd (close_antigravity (sim_os windows) 2 True
                                          (sim_start [p_app, p_helper, p_self])))))"
proof -
  let ?s = "sim_start [p_app, p_helper, p_self]"
  let ?final = "snd (close_antigravity (sim_os windows) 2 True ?s)"
  have h: "p_helper \<in> set (killed (trace ?final))"
    by code_simp
  have n: "p_helper \<notin> set (killed (trace ?s))"
    by (simp add: sim_start_def)
  have perm: "permanent (trace ?final)"
    by code_simp
  have gone: "EvIsRunning p_app (Inr False)
       \<in> set (trace (snd (polling (sim_os windows) 2 (announce (sim_os windows) ?s))))"
    by code_simp
  have z: "killed (trace ?s) = []"
    by (simp add: sim_start_def)
  have a: "p_app \<notin> set (killed (trace ?final))"
    using phase_ordering [of p_app "sim_os windows" 2 True ?s, THEN conjunct2] perm gone z
    by auto
  show ?thesis
    using h n perm gone a phase_ordering [of p_helper "sim_os windows" 2 True ?s, THEN conjunct1]
    by blast
qed

section \<open>The claim about launch\<close>

text \<open>The attempts of a strategy, read off the trace: a URI attempt is a call of
  \<open>open_uri\<close>; an attempt by the executable path is an entry into lines 254--270,
  which the message of line 254 marks.\<close>

fun is_uri_attempt :: "event \<Rightarrow> bool" where
  "is_uri_attempt (EvOpenUri uri r) = True"
| "is_uri_attempt e = False"

definition is_path_attempt :: "event \<Rightarrow> bool" where
  "is_path_attempt e = (e = EvLog Info ''Launching via executable path...'')"

definition uri_attempts :: "event list \<Rightarrow> nat" where
  "uri_attempts tr = length (filter is_uri_attempt tr)"

definition path_attempts :: "event list \<Rightarrow> nat" where
  "path_attempts tr = length (filter is_path_attempt tr)"

lemma uri_attempts_append [simp]: "uri_attempts (a @ b) = uri_attempts a + uri_attempts b"
  by (simp add: uri_attempts_def)

lemma path_attempts_append [simp]: "path_attempts (a @ b) = path_attempts a + path_attempts b"
  by (simp add: path_attempts_def)

lemma uri_attempts_Cons [simp]:
  "uri_attempts (e # tr) = (if is_uri_attempt e then 1 else 0) + uri_attempts tr"
  by (simp add: uri_attempts_def)

lemma path_attempts_Cons [simp]:
  "path_attempts (e # tr) = (if is_path_attempt e then 1 else 0) + path_attempts tr"
  by (simp add: path_attempts_def)

lemma uri_attempts_Nil [simp]: "uri_attempts [] = 0"
  by (simp add: uri_attempts_def)

lemma path_attempts_Nil [simp]: "path_attempts [] = 0"
  by (simp add: path_attempts_def)

lemma trace_Popen: "Popen os cmd s = (r, s') \<Longrightarrow> trace s' = trace s @ [EvPopen cmd]"
  unfolding Popen_def by (drule trace_call) simp

lemma trace_open_uri: "open_uri os uri s = (r, s') \<Longrightarrow> trace s' = trace s @ [EvOpenUri uri r]"
  unfolding open_uri_def by (drule trace_call) simp

lemma trace_get_path:
  "get_antigravity_executable_path os s = (r, s') \<Longrightarrow> trace s' = trace s @ [EvGetPath]"
  unfolding get_antigravity_executable_path_def by (drule trace_call) simp

lemma trace_exists: "exists os path s = (r, s') \<Longrightarrow> trace s' = trace s @ [EvExists path]"
  unfolding exists_def by (drule trace_call) simp

lemma launch_by_path_attempts:
  assumes "launch_by_path os s = (r, s')"
  shows "uri_attempts (trace s') = uri_attempts (trace s)
         \<and> path_attempts (trace s') = path_attempts (trace s) + 1"
  using assms
  by (auto simp: launch_by_path_def Let_def sent_def not_found_def is_path_attempt_def
        split: if_splits prod.splits sum.splits option.splits
        dest!: trace_Popen trace_get_path trace_exists)

declare start_antigravity.simps [simp del]

lemma start_without_uri:
  assumes "launch_by_path os (info ''Starting Antigravity...'' s) = (r, s1)"
  shows "start_antigravity os False s =
           (case r of
              Inr b \<Rightarrow> (Inr b, s1)
            | Inl e \<Rightarrow>
                if is_Exception e then (Inr False, error ''Error starting process: {e}'' s1)
                else (Inl e, s1))"
  using assms
  by (simp add: start_antigravity.simps [of os False s] launch_def split: sum.splits)

lemma start_without_uri_attempts:
  "uri_attempts (trace (snd (start_antigravity os False s))) = uri_attempts (trace s)
   \<and> path_attempts (trace (snd (start_antigravity os False s))) = path_attempts (trace s) + 1"
proof -
  obtain r s1 where l: "launch_by_path os (info ''Starting Antigravity...'' s) = (r, s1)"
    by (cases "launch_by_path os (info ''Starting Antigravity...'' s)")
  show ?thesis
    using launch_by_path_attempts [OF l]
    by (simp add: start_without_uri [OF l] is_path_attempt_def split: sum.splits)
qed

lemma start_with_uri:
  "start_antigravity os True s =
     (case launch os True (info ''Starting Antigravity...'' s) of
        (Inr b, s1) \<Rightarrow> (Inr b, s1)
      | (Inl e, s1) \<Rightarrow>
          if is_Exception e then
            start_antigravity os False
              (warning ''URI launch failed, trying executable path...''
                 (error ''Error starting process: {e}'' s1))
          else (Inl e, s1))"
  by (simp add: start_antigravity.simps [of os True s] split: prod.splits sum.splits)

lemma uri_try_attempts:
  assumes "open_uri os uri (info ''Launching via URI protocol...''
             (info ''Starting Antigravity...'' s)) = (r, su)"
  shows "uri_attempts (trace su) = uri_attempts (trace s) + 1"
    and "path_attempts (trace su) = path_attempts (trace s)"
  using trace_open_uri [OF assms] by (simp_all add: is_path_attempt_def)

text \<open>
  C1 (direction and bound of the retry), as amended. The only retry of
  \<open>start_antigravity\<close> is the call of itself with \<open>use_uri=False\<close> that the handler
  makes when a call with \<open>use_uri=True\<close> has raised an \<open>Exception\<close>. In full:

  \<^item> A call with \<open>use_uri=False\<close> tries the launch by the executable path once and
    opens no URI, whatever that launch does: it returns the launch's boolean, answers
    false with the handler's message when the launch raises an \<open>Exception\<close>, and lets
    any other exception through.
  \<^item> A call with \<open>use_uri=True\<close> whose URI is opened returns true after that one
    attempt.
  \<^item> When opening the URI answers false, the launch by the path is tried; if it
    returns, its boolean is the result and nothing is retried, also when that boolean
    is false (two attempts).
  \<^item> When opening the URI answers false and the launch by the path then raises an
    \<open>Exception\<close>, the path is tried a second time, from the state the handler leaves;
    the outcome of that third attempt is the result (false, with the handler's
    message, if it raises an \<open>Exception\<close> again).
  \<^item> When opening the URI itself raises an \<open>Exception\<close>, the path is tried once,
    in the retry, and the outcome of that attempt is the result in the same way.
  \<^item> An exception that is not an \<open>Exception\<close> leaves the call from the attempt that
    raised it.
\<close>

theorem launch_retry:
  "(\<forall>r s1. launch_by_path os (info ''Starting Antigravity...'' s) = (r, s1) \<longrightarrow>
       start_antigravity os False s =
         (case r of
            Inr b \<Rightarrow> (Inr b, s1)
          | Inl e \<Rightarrow>
              if is_Exception e then (Inr False, error ''Error starting process: {e}'' s1)
              else (Inl e, s1))
       \<and> uri_attempts (trace (snd (start_antigravity os False s))) = uri_attempts (trace s)
       \<and> path_attempts (trace (snd (start_antigravity os False s))) = path_attempts (trace s) + 1)
   \<and> (\<forall>su.
       open_uri os ''antigravity://oauth-success''
           (info ''Launching via URI protocol...'' (info ''Starting Antigravity...'' s))
         = (Inr True, su) \<longrightarrow>
       start_antigravity os True s = (Inr True, info ''Antigravity URI launch command sent'' su)
       \<and> uri_attempts (trace (snd (start_antigravity os True s))) = uri_attempts (trace s) + 1
       \<and> path_attempts (trace (snd (start_antigravity os True s))) = path_attempts (trace s))
   \<and> (\<forall>su b s1.
       open_uri os ''antigravity://oauth-success''
           (info ''Launching via URI protocol...'' (info ''Starting Antigravity...'' s))
         = (Inr False, su)
         \<and> launch_by_path os (warning ''URI launch failed, trying executable path...'' su)
             = (Inr b, s1) \<longrightarrow>
       start_antigravity os True s = (Inr b, s1)
       \<and> uri_attempts (trace (snd (start_antigravity os True s))) = uri_attempts (trace s) + 1
       \<and> path_attempts (trace (snd (start_antigravity os True s))) = path_attempts (trace s) + 1)
   \<and> (\<forall>su e s1 r2 s2.
       open_uri os ''antigravity://oauth-success''
           (info ''Launching via URI protocol...'' (info ''Starting Antigravity...'' s))
         = (Inr False, su)
         \<and> launch_by_path os (warning ''URI launch failed, trying executable path...'' su)
             = (Inl e, s1)
         \<and> is_Exception e
         \<and> launch_by_path os
             (info ''Starting Antigravity...''
                (warning ''URI launch failed, trying executable path...''
                   (error ''Error starting process: {e}'' s1))) = (r2, s2) \<longrightarrow>
       start_antigravity os True s =
         (case r2 of
            Inr b \<Rightarrow> (Inr b, s2)
          | Inl e2 \<Rightarrow>
              if is_Exception e2 then (Inr False, error ''Error starting process: {e}'' s2)
              else (Inl e2, s2))
       \<and> uri_attempts (trace (snd (start_antigravity os True s))) = uri_attempts (trace s) + 1
       \<and> path_attempts (trace (snd (start_antigravity os True s))) = path_attempts (trace s) + 2)
   \<and> (\<forall>su e r2 s2.
       open_uri os ''antigravity://oauth-success''
           (info ''Launching via URI protocol...'' (info ''Starting Antigravity...'' s))
         = (Inl e, su)
         \<and> is_Exception e
         \<and> launch_by_path os
             (info ''Starting Antigravity...''
                (warning ''URI launch failed, trying executable path...''
                   (error ''Error starting process: {e}'' su))) = (r2, s2) \<longrightarrow>
       start_antigravity os True s =
         (case r2 of
            Inr b \<Rightarrow> (Inr b, s2)
          | Inl e2 \<Rightarrow>
              if is_Exception e2 then (Inr False, error ''Error starting process: {e}'' s2)
              else (Inl e2, s2))
       \<and> uri_attempts (trace (snd (start_antigravity os True s))) = uri_attempts (trace s) + 1
       \<and> path_attempts (trace (snd (start_antigravity os True s))) = path_attempts (trace s) + 1)
   \<and> (\<forall>su e.
       open_uri os ''antigravity://oauth-success''
           (info ''Launching via URI protocol...'' (info ''Starting Antigravity...'' s))
         = (Inl e, su) \<and> \<not> is_Exception e \<longrightarrow>
       start_antigravity os True s = (Inl e, su))
   \<and> (\<forall>su e s1.
       open_uri os ''antigravity://oauth-success''
           (info ''Launching via URI protocol...'' (info ''Starting Antigravity...'' s))
         = (Inr False, su)
         \<and> launch_by_path os (warning ''URI launch failed, trying executable path...'' su)
             = (Inl e, s1)
         \<and> \<not> is_Exception e \<longrightarrow>
       start_antigravity os True s = (Inl e, s1))"
proof -
  let ?u = "open_uri os ''antigravity://oauth-success''
              (info ''Launching via URI protocol...'' (info ''Starting Antigravity...'' s))"
  have c1: "start_antigravity os False s =
         (case r of
            Inr b \<Rightarrow> (Inr b, s1)
          | Inl e \<Rightarrow>
              if is_Exception e then (Inr False, error ''Error starting process: {e}'' s1)
              else (Inl e, s1))
       \<and> uri_attempts (trace (snd (start_antigravity os False s))) = uri_attempts (trace s)
       \<and> path_attempts (trace (snd (start_antigravity os False s))) = path_attempts (trace s) + 1"
    if "launch_by_path os (info ''Starting Antigravity...'' s) = (r, s1)" for r s1
    using start_without_uri [OF that] start_without_uri_attempts [of os s] by simp
  have c2: "start_antigravity os True s = (Inr True, info ''Antigravity URI launch command sent'' su)
       \<and> uri_attempts (trace (snd (start_antigravity os True s))) = uri_attempts (trace s) + 1
       \<and> path_attempts (trace (snd (start_antigravity os True s))) = path_attempts (trace s)"
    if "?u = (Inr True, su)" for su
    using that uri_try_attempts [OF that]
    by (simp add: start_with_uri launch_def is_path_attempt_def)
  have c3: "start_antigravity os True s = (Inr b, s1)
       \<and> uri_attempts (trace (snd (start_antigravity os True s))) = uri_attempts (trace s) + 1
       \<and> path_attempts (trace (snd (start_antigravity os True s))) = path_attempts (trace s) + 1"
    if "?u = (Inr False, su)"
      "launch_by_path os (warning ''URI launch failed, trying executable path...'' su) = (Inr b, s1)"
    for su b s1
    using that uri_try_attempts [OF that(1)] launch_by_path_attempts [OF that(2)]
    by (simp add: start_with_uri launch_def is_path_attempt_def)
  have c4: "start_antigravity os True s =
         (case r2 of
            Inr b \<Rightarrow> (Inr b, s2)
          | Inl e2 \<Rightarrow>
              if is_Exception e2 then (Inr False, error ''Error starting process: {e}'' s2)
              else (Inl e2, s2))
       \<and> uri_attempts (trace (snd (start_antigravity os True s))) = uri_attempts (trace s) + 1
       \<and> path_attempts (trace (snd (start_antigravity os True s))) = path_attempts (trace s) + 2"
    if "?u = (Inr False, su)"
      "launch_by_path os (warning ''URI launch failed, trying executable path...'' su) = (Inl e, s1)"
      "is_Exception e"
      "launch_by_path os
             (info ''Starting Antigravity...''
                (warning ''URI launch failed, trying executable path...''
                   (error ''Error starting process: {e}'' s1))) = (r2, s2)"
    for su e s1 r2 s2
  proof -
    let ?s2 = "warning ''URI launch failed, trying executable path...''
                 (error ''Error starting process: {e}'' s1)"
    have e: "start_antigravity os True s = start_antigravity os False ?s2"
      using that(1,2,3) by (simp add: start_with_uri launch_def)
    show ?thesis
      using uri_try_attempts [OF that(1)] launch_by_path_attempts [OF that(2)]
        start_without_uri [OF that(4)] start_without_uri_attempts [of os ?s2]
      by (simp add: e is_path_attempt_def)
  qed
  have c5: "start_antigravity os True s =
         (case r2 of
            Inr b \<Rightarrow> (Inr b, s2)
          | Inl e2 \<Rightarrow>
              if is_Exception e2 then (Inr False, error ''Error starting process: {e}'' s2)
              else (Inl e2, s2))
       \<and> uri_attempts (trace (snd (start_antigravity os True s))) = uri_attempts (trace s) + 1
       \<and> path_attempts (trace (snd (start_antigravity os True s))) = path_attempts (trace s) + 1"
    if "?u = (Inl e, su)" "is_Exception e"
      "launch_by_path os
             (info ''Starting Antigravity...''
                (warning ''URI launch failed, trying executable path...''
                   (error ''Error starting process: {e}'' su))) = (r2, s2)"
    for su e r2 s2
  proof -
    let ?s2 = "warning ''URI launch failed, trying executable path...''
                 (error ''Error starting process: {e}'' su)"
    have e: "start_antigravity os True s = start_antigravity os False ?s2"
      using that(1,2) by (simp add: start_with_uri launch_def)
    show ?thesis
      using uri_try_attempts [OF that(1)]
        start_without_uri [OF that(3)] start_without_uri_attempts [of os ?s2]
      by (simp add: e is_path_attempt_def)
  qed
  have c6: "start_antigravity os True s = (Inl e, su)"
    if "?u = (Inl e, su)" "\<not> is_Exception e" for su e
    using that by (simp add: start_with_uri launch_def)
  have c7: "start_antigravity os True s = (Inl e, s1)"
    if "?u = (Inr False, su)"
      "launch_by_path os (warning ''URI launch failed, trying executable path...'' su) = (Inl e, s1)"
      "\<not> is_Exception e"
    for su e s1
    using that by (simp add: start_with_uri launch_def)
  show ?thesis
    using c1 c2 c3 c4 c5 c6 c7 by blast
qed

theorem launch_retry_witness:
  "fst (start_antigravity (sim_os linux_missing) False (sim_start [])) = Inr False
   \<and> uri_attempts (trace (snd (start_antigravity (sim_os linux_missing) False (sim_start [])))) = 0
   \<and> path_attempts (trace (snd (start_antigravity (sim_os linux_missing) False (sim_start [])))) = 1
   \<and> fst (start_antigravity (sim_os (linux_missing\<lparr>sc_open_uri := Inr True\<rparr>)) True (sim_start []))
       = Inr True
   \<and> path_attempts (trace (snd (start_antigravity
         (sim_os (linux_missing\<lparr>sc_open_uri := Inr True\<rparr>)) True (sim_start [])))) = 0
   \<and> fst (start_antigravity (sim_os windows) True (sim_start [])) = Inr False
   \<and> uri_attempts (trace (snd (start_antigravity (sim_os windows) True (sim_start [])))) = 1
   \<and> path_attempts (trace (snd (start_antigravity (sim_os windows) True (sim_start [])))) = 1
   \<and> fst (start_antigravity (sim_os linux_missing) True (sim_start [])) = Inr False
   \<and> uri_attempts (trace (snd (start_antigravity (sim_os linux_missing) True (sim_start [])))) = 1
   \<and> path_attempts (trace (snd (start_antigravity (sim_os linux_missing) True (sim_start [])))) = 2
   \<and> fst (start_antigravity (sim_os (linux_missing\<lparr>sc_open_uri := Inl OtherException\<rparr>)) True
           (sim_start [])) = Inr False
   \<and> path_attempts (trace (snd (start_antigravity
         (sim_os (linux_missing\<lparr>sc_open_uri := Inl OtherException\<rparr>)) True (sim_start [])))) = 1
   \<and> fst (start_antigravity (sim_os (linux_missing\<lparr>sc_open_uri := Inl KeyboardInterrupt\<rparr>)) True
           (sim_start [])) = Inl KeyboardInterrupt
   \<and> fst (start_antigravity (sim_os (linux_missing\<lparr>sc_popen := Inl SystemExit\<rparr>)) True
           (sim_start [])) = Inl SystemExit"
proof -
  let ?s = "sim_start [] :: sim state"
  let ?uri = "\<lambda>os. open_uri os ''antigravity://oauth-success''
                 (info ''Launching via URI protocol...'' (info ''Starting Antigravity...'' ?s))"
  let ?again = "\<lambda>s1. info ''Starting Antigravity...'' (warning ''URI launch failed, trying executable path...'' (error ''Error starting process: {e}'' s1))"
  have z: "uri_attempts (trace ?s) = 0" "path_attempts (trace ?s) = 0"
    by (simp_all add: sim_start_def)
  have x: "is_Exception OtherException" "\<not> is_Exception KeyboardInterrupt"
    "\<not> is_Exception SystemExit"
    by simp_all
  have a: "fst (start_antigravity (sim_os linux_missing) False ?s) = Inr False
     \<and> uri_attempts (trace (snd (start_antigravity (sim_os linux_missing) False ?s))) = 0
     \<and> path_attempts (trace (snd (start_antigravity (sim_os linux_missing) False ?s))) = 1"
  proof -
    let ?os = "sim_os linux_missing"
    let ?l = "launch_by_path ?os (info ''Starting Antigravity...'' ?s)"
    have h: "?l = (Inl OtherException, snd ?l)"
      by code_simp
    note r = launch_retry [of ?os ?s, THEN conjunct1, rule_format, OF h]
    show ?thesis
      using r [THEN conjunct1] r [THEN conjunct2, THEN conjunct1]
        r [THEN conjunct2, THEN conjunct2] z
      by simp
  qed
  have b: "fst (start_antigravity (sim_os (linux_missing\<lparr>sc_open_uri := Inr True\<rparr>)) True ?s)
       = Inr True
     \<and> path_attempts (trace (snd (start_antigravity
         (sim_os (linux_missing\<lparr>sc_open_uri := Inr True\<rparr>)) True ?s))) = 0"
  proof -
    let ?os = "sim_os (linux_missing\<lparr>sc_open_uri := Inr True\<rparr>)"
    have h: "?uri ?os = (Inr True, snd (?uri ?os))"
      by code_simp
    note r = launch_retry [of ?os ?s, THEN conjunct2, THEN conjunct1, rule_format, OF h]
    show ?thesis
      using r [THEN conjunct1] r [THEN conjunct2, THEN conjunct1]
        r [THEN conjunct2, THEN conjunct2] z
      by simp
  qed
  have c: "fst (start_antigravity (sim_os windows) True ?s) = Inr False
     \<and> uri_attempts (trace (snd (start_antigravity (sim_os windows) True ?s))) = 1
     \<and> path_attempts (trace (snd (start_antigravity (sim_os windows) True ?s))) = 1"
  proof -
    let ?os = "sim_os windows"
    let ?l = "launch_by_path ?os (warning ''URI launch failed, trying executable path...'' (snd (?uri ?os)))"
    have h: "?uri ?os = (Inr False, snd (?uri ?os))" "?l = (Inr False, snd ?l)"
      by code_simp+
    note r = launch_retry [of ?os ?s, THEN conjunct2, THEN conjunct2, THEN conjunct1,
        rule_format, OF conjI [OF h]]
    show ?thesis
      using r [THEN conjunct1] r [THEN conjunct2, THEN conjunct1]
        r [THEN conjunct2, THEN conjunct2] z
      by simp
  qed
  have d: "fst (start_antigravity (sim_os linux_missing) True ?s) = Inr False
     \<and> uri_attempts (trace (snd (start_antigravity (sim_os linux_missing) True ?s))) = 1
     \<and> path_attempts (trace (snd (start_antigravity (sim_os linux_missing) True ?s))) = 2"
  proof -
    let ?os = "sim_os linux_missing"
    let ?l = "launch_by_path ?os (warning ''URI launch failed, trying executable path...'' (snd (?uri ?os)))"
    let ?l2 = "launch_by_path ?os (?again (snd ?l))"
    have h: "?uri ?os = (Inr False, snd (?uri ?os))" "?l = (Inl OtherException, snd ?l)"
      "?l2 = (Inl OtherException, snd ?l2)"
      by code_simp+
    note r = launch_retry [of ?os ?s, THEN conjunct2, THEN conjunct2, THEN conjunct2,
        THEN conjunct1, rule_format,
        OF conjI [OF h(1) conjI [OF h(2) conjI [OF x(1) h(3)]]]]
    show ?thesis
      using r [THEN conjunct1] r [THEN conjunct2, THEN conjunct1]
        r [THEN conjunct2, THEN conjunct2] z
      by simp
  qed
  have e: "fst (start_antigravity (sim_os (linux_missing\<lparr>sc_open_uri := Inl OtherException\<rparr>))
             True ?s) = Inr False
     \<and> path_attempts (trace (snd (start_antigravity
         (sim_os (linux_missing\<lparr>sc_open_uri := Inl OtherException\<rparr>)) True ?s))) = 1"
  proof -
    let ?os = "sim_os (linux_missing\<lparr>sc_open_uri := Inl OtherException\<rparr>)"
    let ?l2 = "launch_by_path ?os (?again (snd (?uri ?os)))"
    have h: "?uri ?os = (Inl OtherException, snd (?uri ?os))"
      "?l2 = (Inl OtherException, snd ?l2)"
      by code_simp+
    note r = launch_retry [of ?os ?s, THEN conjunct2, THEN conjunct2, THEN conjunct2,
        THEN conjunct2, THEN conjunct1, rule_format,
        OF conjI [OF h(1) conjI [OF x(1) h(2)]]]
    show ?thesis
      using r [THEN conjunct1] r [THEN conjunct2, THEN conjunct1]
        r [THEN conjunct2, THEN conjunct2] z
      by simp
  qed
  have f: "fst (start_antigravity (sim_os (linux_missing\<lparr>sc_open_uri := Inl KeyboardInterrupt\<rparr>))
             True ?s) = Inl KeyboardInterrupt"
  proof -
    let ?os = "sim_os (linux_missing\<lparr>sc_open_uri := Inl KeyboardInterrupt\<rparr>)"
    have h: "?uri ?os = (Inl KeyboardInterrupt, snd (?uri ?os))"
      by code_simp
    note r = launch_retry [of ?os ?s, THEN conjunct2, THEN conjunct2, THEN conjunct2,
        THEN conjunct2, THEN conjunct2, THEN conjunct1, rule_format, OF conjI [OF h x(2)]]
    show ?thesis
      using r by simp
  qed
  have g: "fst (start_antigravity (sim_os (linux_missing\<lparr>sc_popen := Inl SystemExit\<rparr>))
             True ?s) = Inl SystemExit"
  proof -
    let ?os = "sim_os (linux_missing\<lparr>sc_popen := Inl SystemExit\<rparr>)"
    let ?l = "launch_by_path ?os (warning ''URI launch failed, trying executable path...'' (snd (?uri ?os)))"
    have h: "?uri ?os = (Inr False, snd (?uri ?os))" "?l = (Inl SystemExit, snd ?l)"
      by code_simp+
    note r = launch_retry [of ?os ?s, THEN conjunct2, THEN conjunct2, THEN conjunct2,
        THEN conjunct2, THEN conjunct2, THEN conjunct2, rule_format,
        OF conjI [OF h(1) conjI [OF h(2) x(3)]]]
    show ?thesis
      using r by simp
  qed
  show ?thesis
    using a b c d e f g by blast
qed

text \<open>
  The claim without the amendment fails on a system where the executable is missing
  and the URI cannot be opened: the call with \<open>use_uri=False\<close> answers false without
  ever opening the URI, and the call with \<open>use_uri=True\<close> makes three attempts, the
  URI once and the path twice.
\<close>

theorem launch_retry_counterexample:
  "fst (launch (sim_os linux_missing) False (info ''Starting Antigravity...'' (sim_start [])))
     = Inl OtherException
   \<and> fst (start_antigravity (sim_os linux_missing) False (sim_start [])) = Inr False
   \<and> uri_attempts (trace (snd (start_antigravity (sim_os linux_missing) False (sim_start []))))
       = 0
   \<and> uri_attempts (trace (snd (start_antigravity (sim_os linux_missing) True (sim_start []))))
       = 1
   \<and> path_attempts (trace (snd (start_antigravity (sim_os linux_missing) True (sim_start []))))
       = 2"
  by code_simp

end
